theory Spec2Isabelle
  imports Complex_Main
begin

text \<open>
  The page-turn engine of the flipbook is the class \<^verbatim>\<open>PageFlip\<close>. The model follows its
  version with drag support. The plain version in \<^verbatim>\<open>modules/page-flip.js\<close> has the same
  \<^verbatim>\<open>loadPages\<close>, \<^verbatim>\<open>_updatePageVisibility\<close>, \<^verbatim>\<open>nextPage\<close>, \<^verbatim>\<open>prevPage\<close> and
  \<^verbatim>\<open>goToPage\<close> on the fields modelled here; its \<^verbatim>\<open>_createPage\<close> puts a copy of an element
  into the page, where the version followed here puts the element itself.
\<close>

section \<open>JavaScript numbers\<close>

text \<open>
  A JavaScript number is an IEEE 754 binary64 value: a finite double, an infinity or NaN.
  A finite double is modelled by the real number it denotes; every arithmetic operation
  computes the exact result and rounds it to the nearest double, ties to the even
  significand, and to an infinity from \<open>2^1024\<close> on. The sign of a zero is not kept: a zero
  divisor counts as \<open>+0\<close>, which is what \<^verbatim>\<open>width / 2\<close> is for the non-negative width of a
  bounding rectangle. Pointer coordinates and sizes handed to the engine are finite
  doubles.
\<close>

datatype jsnum = Fin real | PosInf | NegInf | NaN

text \<open>\<open>expo x\<close> is the binary exponent of a positive \<open>x\<close>: \<open>2 ^ expo x \<le> x < 2 ^ (expo x + 1)\<close>.\<close>

function expo :: "real \<Rightarrow> int" where
  "expo x = (if x \<le> 0 then 0
             else if 2 \<le> x then expo (x / 2) + 1
             else if x < 1 then expo (x * 2) - 1
             else 0)"
  by pat_completeness auto
termination
proof (relation "measure (\<lambda>x. if 1 \<le> x then nat \<lfloor>x\<rfloor> else nat \<lfloor>1 / x\<rfloor> + 2)")
  show "wf (measure (\<lambda>x. if 1 \<le> x then nat \<lfloor>x\<rfloor> else nat \<lfloor>1 / x\<rfloor> + 2))" by simp
next
  fix x :: real
  assume a: "\<not> x \<le> 0" "2 \<le> x"
  then have "\<lfloor>x / 2\<rfloor> < \<lfloor>x\<rfloor>" by linarith
  moreover from a have "0 < \<lfloor>x\<rfloor>" by linarith
  ultimately show "(x / 2, x) \<in> measure (\<lambda>x. if 1 \<le> x then nat \<lfloor>x\<rfloor> else nat \<lfloor>1 / x\<rfloor> + 2)"
    using a by auto
next
  fix x :: real
  assume a: "\<not> x \<le> 0" "\<not> 2 \<le> x" "x < 1"
  show "(x * 2, x) \<in> measure (\<lambda>x. if 1 \<le> x then nat \<lfloor>x\<rfloor> else nat \<lfloor>1 / x\<rfloor> + 2)"
  proof (cases "1 \<le> x * 2")
    case True
    with a have "\<lfloor>x * 2\<rfloor> = 1" by linarith
    with True a show ?thesis by auto
  next
    case False
    with a have b: "2 < 1 / x" by (simp add: field_simps)
    have "1 / (x * 2) = (1 / x) / 2" by simp
    moreover have h: "\<lfloor>y / 2\<rfloor> < \<lfloor>y\<rfloor> \<and> 0 < \<lfloor>y\<rfloor>" if "2 < y" for y :: real
      using that by linarith
    note h [OF b]
    ultimately show ?thesis using False a by auto
  qed
qed

declare expo.simps [simp del]

definition pow2 :: "int \<Rightarrow> real" where
  "pow2 e = (if 0 \<le> e then 2 ^ nat e else 1 / 2 ^ nat (- e))"

text \<open>Rounding to the nearest integer, a tie to the even one.\<close>

definition rne :: "real \<Rightarrow> int" where
  "rne x = (let f = \<lfloor>x\<rfloor>; d = x - of_int f
            in if d < 1 / 2 then f else if 1 / 2 < d then f + 1
               else if even f then f else f + 1)"

text \<open>
  \<open>fl x\<close> is the double that the exact result \<open>x\<close> rounds to. A double has a significand
  of 53 bits and an exponent of at least \<open>-1074\<close> for its last bit; the numeral in the
  overflow test is \<open>2^1024\<close>.
\<close>

definition fl :: "real \<Rightarrow> jsnum" where
  "fl x =
     (if x = 0 then Fin 0
      else
        let e = max (expo \<bar>x\<bar> - 52) (- 1074);
            y = of_int (rne (x / pow2 e)) * pow2 e
        in if 179769313486231590772930519078902473361797697894230657273430081157732675805500963132708477322407536021120113879871393357658789768814416622492847430639474124377767893424865485276302219601246094119453082952085005768838150682342462881473913110540827237163350510684586298239947245938479716304835356329624224137216 \<le> \<bar>y\<bar>
           then (if 0 < x then PosInf else NegInf) else Fin y)"

text \<open>The doubles that the literals \<^verbatim>\<open>0.6\<close>, \<^verbatim>\<open>0.4\<close> and \<^verbatim>\<open>0.3\<close> of the source denote.\<close>

definition double_0_6 :: real where
  "double_0_6 = 5404319552844595 / 9007199254740992"

definition double_0_4 :: real where
  "double_0_4 = 3602879701896397 / 9007199254740992"

definition double_0_3 :: real where
  "double_0_3 = 5404319552844595 / 18014398509481984"

fun js_neg :: "jsnum \<Rightarrow> jsnum" where
  "js_neg (Fin r) = Fin (- r)"
| "js_neg PosInf = NegInf"
| "js_neg NegInf = PosInf"
| "js_neg NaN = NaN"

fun js_add :: "jsnum \<Rightarrow> jsnum \<Rightarrow> jsnum" where
  "js_add (Fin a) (Fin b) = fl (a + b)"
| "js_add NaN v = NaN"
| "js_add v NaN = NaN"
| "js_add PosInf NegInf = NaN"
| "js_add NegInf PosInf = NaN"
| "js_add PosInf v = PosInf"
| "js_add v PosInf = PosInf"
| "js_add NegInf v = NegInf"
| "js_add v NegInf = NegInf"

definition js_sub :: "jsnum \<Rightarrow> jsnum \<Rightarrow> jsnum" where
  "js_sub a b = js_add a (js_neg b)"

definition infinity :: "bool \<Rightarrow> jsnum" where
  "infinity positive = (if positive then PosInf else NegInf)"

fun js_mul :: "jsnum \<Rightarrow> jsnum \<Rightarrow> jsnum" where
  "js_mul (Fin a) (Fin b) = fl (a * b)"
| "js_mul NaN v = NaN"
| "js_mul v NaN = NaN"
| "js_mul (Fin a) PosInf = (if a = 0 then NaN else infinity (0 < a))"
| "js_mul (Fin a) NegInf = (if a = 0 then NaN else infinity (a < 0))"
| "js_mul PosInf (Fin b) = (if b = 0 then NaN else infinity (0 < b))"
| "js_mul NegInf (Fin b) = (if b = 0 then NaN else infinity (b < 0))"
| "js_mul PosInf PosInf = PosInf"
| "js_mul PosInf NegInf = NegInf"
| "js_mul NegInf PosInf = NegInf"
| "js_mul NegInf NegInf = PosInf"

fun js_div :: "jsnum \<Rightarrow> jsnum \<Rightarrow> jsnum" where
  "js_div (Fin a) (Fin b) =
     (if b \<noteq> 0 then fl (a / b)
      else if 0 < a then PosInf
      else if a < 0 then NegInf
      else NaN)"
| "js_div NaN v = NaN"
| "js_div v NaN = NaN"
| "js_div (Fin a) PosInf = Fin 0"
| "js_div (Fin a) NegInf = Fin 0"
| "js_div PosInf (Fin b) = infinity (0 \<le> b)"
| "js_div NegInf (Fin b) = infinity (b < 0)"
| "js_div PosInf PosInf = NaN"
| "js_div PosInf NegInf = NaN"
| "js_div NegInf PosInf = NaN"
| "js_div NegInf NegInf = NaN"

text \<open>\<^verbatim>\<open>Math.min(a, v)\<close> and \<^verbatim>\<open>Math.max(a, v)\<close> for a finite \<open>a\<close>.\<close>

fun js_min :: "real \<Rightarrow> jsnum \<Rightarrow> jsnum" where
  "js_min a (Fin r) = Fin (min a r)"
| "js_min a PosInf = Fin a"
| "js_min a NegInf = NegInf"
| "js_min a NaN = NaN"

fun js_max :: "real \<Rightarrow> jsnum \<Rightarrow> jsnum" where
  "js_max a (Fin r) = Fin (max a r)"
| "js_max a PosInf = PosInf"
| "js_max a NegInf = Fin a"
| "js_max a NaN = NaN"

text \<open>
  \<open>js_gt v c\<close> is the comparison \<^verbatim>\<open>v > c\<close> and \<open>js_lt v c\<close> is \<^verbatim>\<open>v < c\<close>, for a finite
  \<open>c\<close>; every comparison with NaN is false.
\<close>

fun js_gt :: "jsnum \<Rightarrow> real \<Rightarrow> bool" where
  "js_gt (Fin r) c = (r > c)"
| "js_gt PosInf c = True"
| "js_gt NegInf c = False"
| "js_gt NaN c = False"

fun js_lt :: "jsnum \<Rightarrow> real \<Rightarrow> bool" where
  "js_lt (Fin r) c = (r < c)"
| "js_lt PosInf c = False"
| "js_lt NegInf c = True"
| "js_lt NaN c = False"

section \<open>Page contents and spread elements\<close>

text \<open>
  A page content is a string (markup or an image address) or a DOM element (an
  \<^verbatim>\<open>HTMLElement\<close>, canvases included), named here by a number. An element is a node of the
  caller's: it is none of the nodes the engine creates and does not contain the book
  element. \<^verbatim>\<open>loadPages\<close> tests the right-hand content for truthiness
  (\<^verbatim>\<open>pageContents[i + 1] || null\<close>, then \<^verbatim>\<open>if (rightContent)\<close>): an empty string is
  falsy, every element is truthy.
\<close>

datatype content = Str string | Elem nat

fun truthy :: "content \<Rightarrow> bool" where
  "truthy (Str s) = (s \<noteq> [])"
| "truthy (Elem e) = True"

datatype side = LeftSide | RightSide

text \<open>
  A page element with its side, its \<^verbatim>\<open>dataset.pageNumber\<close> and what its inner box holds:
  the markup or image made from a string, or an element, or nothing.
\<close>

record page =
  pageSide :: side
  pageNumber :: nat
  inner :: "content option"

text \<open>
  A spread element carries its \<^verbatim>\<open>dataset.index\<close>, its page children in document order,
  and the two style properties the engine steers: \<^verbatim>\<open>style.zIndex\<close> and the angle of
  \<^verbatim>\<open>style.transform = rotateY(..deg)\<close>. A new element has neither property set; it is
  created with \<open>0\<close> for both, and \<^verbatim>\<open>loadPages\<close> assigns both to every spread it created
  before it returns. Class names, transition strings, transform origins and the opacities
  of the shadow and curl overlays are presentation only and are left out.
\<close>

record spread =
  index :: nat
  leaves :: "page list"
  zIndex :: int
  rotation :: jsnum

text \<open>
  Spread elements are shared objects, kept in a store: a list of every spread element
  created so far, in which a reference is a position. \<open>modify r f\<close> changes the element
  behind the reference \<open>r\<close>.
\<close>

definition modify :: "nat \<Rightarrow> (spread \<Rightarrow> spread) \<Rightarrow> spread list \<Rightarrow> spread list" where
  "modify r f es = (if r < length es then es[r := f (es ! r)] else es)"

text \<open>
  \<^verbatim>\<open>inner.appendChild(content)\<close> in \<^verbatim>\<open>_createPage\<close> appends the element itself, not a
  copy. A node has one place in the document, so an element that a page already holds is
  taken out of that page. A string makes new markup or a new image and leaves the other
  pages alone.
\<close>

fun takeOut :: "content \<Rightarrow> page \<Rightarrow> page" where
  "takeOut (Str t) p = p"
| "takeOut (Elem e) p = (if inner p = Some (Elem e) then p\<lparr>inner := None\<rparr> else p)"

definition takeOutOf :: "content \<Rightarrow> spread \<Rightarrow> spread" where
  "takeOutOf c sp = sp\<lparr>leaves := map (takeOut c) (leaves sp)\<rparr>"

text \<open>\<^verbatim>\<open>_createPage\<close>: the new page, and the store after the content has been put into it.\<close>

definition createPage ::
  "content \<Rightarrow> side \<Rightarrow> nat \<Rightarrow> spread list \<Rightarrow> page \<times> spread list" where
  "createPage c sd n es =
     (\<lparr>pageSide = sd, pageNumber = n, inner = Some c\<rparr>, map (takeOutOf c) es)"

text \<open>\<^verbatim>\<open>spread.appendChild(page)\<close> for the spread behind the reference \<open>r\<close>.\<close>

definition appendPage :: "nat \<Rightarrow> page \<Rightarrow> spread list \<Rightarrow> spread list" where
  "appendPage r p es = modify r (\<lambda>sp. sp\<lparr>leaves := leaves sp @ [p]\<rparr>) es"

text \<open>
  \<^verbatim>\<open>_createSpread\<close>: the spread element is created first, at the end of the store, then
  the left page and, for a truthy right content, the right page are created and appended
  to it. The result is the reference of the new spread and the store.
\<close>

definition createSpread ::
  "content \<Rightarrow> content option \<Rightarrow> nat \<Rightarrow> spread list \<Rightarrow> nat \<times> spread list" where
  "createSpread leftContent rightContent i es =
     (let r = length es;
          es0 = es @ [\<lparr>index = i div 2, leaves = [], zIndex = 0, rotation = Fin 0\<rparr>];
          left = createPage leftContent LeftSide i es0;
          es1 = appendPage r (fst left) (snd left)
      in case rightContent of
           Some c \<Rightarrow>
             if truthy c
             then (let right = createPage c RightSide (i + 1) es1
                   in (r, appendPage r (fst right) (snd right)))
             else (r, es1)
         | None \<Rightarrow> (r, es1))"

text \<open>\<^verbatim>\<open>pageContents[j] || null\<close>: reading past the end gives \<^verbatim>\<open>undefined\<close>, which is falsy.\<close>

definition or_null :: "content list \<Rightarrow> nat \<Rightarrow> content option" where
  "or_null cs j = (if j < length cs \<and> truthy (cs ! j) then Some (cs ! j) else None)"

section \<open>The engine state\<close>

datatype direction = Next | Prev | Goto

text \<open>A call of one of the two observer callbacks, with its arguments (page, direction).\<close>

datatype event = FlipStart int "direction option" | FlipEnd int "direction option"

text \<open>
  The fields of \<^verbatim>\<open>PageFlip\<close>. Spread elements are shared objects: \<^verbatim>\<open>this.pages\<close> and
  \<^verbatim>\<open>this.dragPage\<close> hold references to them. \<open>elems\<close> is the store of every spread element
  created so far, a reference is a position in it, and \<^verbatim>\<open>null\<close>/\<^verbatim>\<open>undefined\<close> is \<open>None\<close>.
  \<open>onFlipStart\<close> and \<open>onFlipEnd\<close> tell whether the option holds a callback, and \<open>emitted\<close>
  lists the callback calls made so far, oldest first.
\<close>

record book =
  onFlipStart :: bool
  onFlipEnd :: bool
  currentPage :: int
  totalPages :: int
  isFlipping :: bool
  pages :: "nat list"
  isDragging :: bool
  dragStartX :: real
  dragStartY :: real
  dragCurrentX :: real
  dragCurrentY :: real
  dragPage :: "nat option"
  dragDirection :: "direction option"
  dragProgress :: jsnum
  elems :: "spread list"
  emitted :: "event list"

text \<open>The constructor.\<close>

definition new_book :: "bool \<Rightarrow> bool \<Rightarrow> book" where
  "new_book startCb endCb =
     \<lparr>onFlipStart = startCb, onFlipEnd = endCb,
      currentPage = 0, totalPages = 0, isFlipping = False, pages = [],
      isDragging = False, dragStartX = 0, dragStartY = 0, dragCurrentX = 0, dragCurrentY = 0,
      dragPage = None, dragDirection = None, dragProgress = Fin 0,
      elems = [], emitted = []\<rparr>"

text \<open>\<^verbatim>\<open>this.pages[i]\<close> for a number \<open>i\<close>: \<^verbatim>\<open>undefined\<close> outside the array.\<close>

definition page_at :: "book \<Rightarrow> int \<Rightarrow> nat option" where
  "page_at s i = (if 0 \<le> i \<and> i < int (length (pages s)) then Some (pages s ! nat i) else None)"

text \<open>An assignment to a style property of the element behind a reference.\<close>

definition style :: "nat \<Rightarrow> (spread \<Rightarrow> spread) \<Rightarrow> book \<Rightarrow> book" where
  "style r f s = s\<lparr>elems := modify r f (elems s)\<rparr>"

definition fireFlipStart :: "int \<Rightarrow> direction option \<Rightarrow> book \<Rightarrow> book" where
  "fireFlipStart p d s = (if onFlipStart s then s\<lparr>emitted := emitted s @ [FlipStart p d]\<rparr> else s)"

definition fireFlipEnd :: "int \<Rightarrow> direction option \<Rightarrow> book \<Rightarrow> book" where
  "fireFlipEnd p d s = (if onFlipEnd s then s\<lparr>emitted := emitted s @ [FlipEnd p d]\<rparr> else s)"

section \<open>Settling: \<^verbatim>\<open>_updatePageVisibility\<close>\<close>

text \<open>
  The body of the \<^verbatim>\<open>forEach\<close> callback for the spread at position \<open>i\<close> of \<open>n\<close> spreads,
  with \<open>cur = Math.floor(currentPage / 2)\<close>.
\<close>

definition settle :: "nat \<Rightarrow> int \<Rightarrow> nat \<Rightarrow> spread \<Rightarrow> spread" where
  "settle n cur i sp =
     (if int i = cur then sp\<lparr>zIndex := 10, rotation := Fin 0\<rparr>
      else if int i < cur then sp\<lparr>zIndex := int i, rotation := Fin (- 180)\<rparr>
      else sp\<lparr>zIndex := int n - int i, rotation := Fin 0\<rparr>)"

fun settle_each :: "nat \<Rightarrow> int \<Rightarrow> nat \<Rightarrow> nat list \<Rightarrow> spread list \<Rightarrow> spread list" where
  "settle_each n cur i [] es = es"
| "settle_each n cur i (r # rs) es = settle_each n cur (Suc i) rs (modify r (settle n cur i) es)"

definition updatePageVisibility :: "book \<Rightarrow> book" where
  "updatePageVisibility s =
     s\<lparr>elems := settle_each (length (pages s)) (currentPage s div 2) 0 (pages s) (elems s)\<rparr>"

section \<open>Building: \<^verbatim>\<open>loadPages\<close>\<close>

text \<open>
  One round of the loop \<^verbatim>\<open>for (let i = 0; i < pageContents.length; i += 2)\<close>: the new
  spread element is allocated at the end of the store and its reference pushed on
  \<^verbatim>\<open>this.pages\<close>.
\<close>

definition push_spread :: "content list \<Rightarrow> nat \<Rightarrow> book \<Rightarrow> book" where
  "push_spread cs i s =
     (let created = createSpread (cs ! i) (or_null cs (i + 1)) i (elems s)
      in s\<lparr>pages := pages s @ [fst created], elems := snd created\<rparr>)"

function loadPages_loop :: "content list \<Rightarrow> nat \<Rightarrow> book \<Rightarrow> book" where
  "loadPages_loop cs i s =
     (if i < length cs then loadPages_loop cs (i + 2) (push_spread cs i s) else s)"
  by pat_completeness auto
termination
  by (relation "measure (\<lambda>(cs, i, s). length cs - i)") auto

declare loadPages_loop.simps [simp del]

definition loadPages :: "content list \<Rightarrow> book \<Rightarrow> book" where
  "loadPages cs s =
     updatePageVisibility
       (loadPages_loop cs 0 (s\<lparr>pages := [], totalPages := int (length cs)\<rparr>))"

section \<open>Asynchronous methods\<close>

text \<open>
  \<^verbatim>\<open>nextPage\<close>, \<^verbatim>\<open>prevPage\<close>, \<^verbatim>\<open>_completeFlip\<close> and \<^verbatim>\<open>_cancelFlip\<close> are \<^verbatim>\<open>async\<close>:
  each runs up to its single \<^verbatim>\<open>await\<close> of the animation promise and hands control back;
  the rest of its body runs when the promise resolves (on \<^verbatim>\<open>transitionend\<close> or on the
  fallback timer). Each is modelled by the part before the \<^verbatim>\<open>await\<close> (\<open>_begin\<close>), which
  either returns at once or is left awaiting, and the part after it (\<open>_resume\<close>). No
  continuation uses a local variable that the model keeps, so \<open>_resume\<close> takes the state
  only. The animation itself is the assignment of the target angle to
  \<^verbatim>\<open>style.transform\<close>; the intermediate frames are drawn by the rendering layer.
\<close>

datatype 'a outcome = Returned 'a | Awaiting

definition animateFlip :: "nat \<Rightarrow> real \<Rightarrow> real \<Rightarrow> book \<Rightarrow> book" where
  "animateFlip r fromAngle toAngle s =
     style r (\<lambda>sp. sp\<lparr>rotation := Fin toAngle\<rparr>) (style r (\<lambda>sp. sp\<lparr>rotation := Fin fromAngle\<rparr>) s)"

definition animateToAngle :: "nat \<Rightarrow> real \<Rightarrow> book \<Rightarrow> book" where
  "animateToAngle r targetAngle s = style r (\<lambda>sp. sp\<lparr>rotation := Fin targetAngle\<rparr>) s"

subsection \<open>\<^verbatim>\<open>nextPage\<close>\<close>

definition nextPage_begin :: "book \<Rightarrow> bool outcome \<times> book" where
  "nextPage_begin s =
     (if isFlipping s \<or> currentPage s \<ge> totalPages s - 2 then (Returned False, s)
      else
        let s1 = s\<lparr>isFlipping := True\<rparr>;
            currentSpread = currentPage s1 div 2;
            s2 = fireFlipStart (currentPage s1) (Some Next) s1
        in case page_at s2 currentSpread of
             Some r \<Rightarrow>
               (Awaiting, animateFlip r 0 (- 180) (style r (\<lambda>sp. sp\<lparr>zIndex := 100\<rparr>) s2))
           | None \<Rightarrow>
               (let s3 = s2\<lparr>isFlipping := False\<rparr>
                in (Returned True, fireFlipEnd (currentPage s3) (Some Next) s3)))"

definition nextPage_resume :: "book \<Rightarrow> bool \<times> book" where
  "nextPage_resume s =
     (let s1 = updatePageVisibility (s\<lparr>currentPage := currentPage s + 2\<rparr>);
          s2 = s1\<lparr>isFlipping := False\<rparr>
      in (True, fireFlipEnd (currentPage s2) (Some Next) s2))"

text \<open>The call followed to its completion, with nothing else happening in between.\<close>

definition nextPage :: "book \<Rightarrow> bool \<times> book" where
  "nextPage s =
     (case nextPage_begin s of
        (Returned b, s') \<Rightarrow> (b, s')
      | (Awaiting, s') \<Rightarrow> nextPage_resume s')"

subsection \<open>\<^verbatim>\<open>prevPage\<close>\<close>

definition prevPage_begin :: "book \<Rightarrow> bool outcome \<times> book" where
  "prevPage_begin s =
     (if isFlipping s \<or> currentPage s \<le> 0 then (Returned False, s)
      else
        let s1 = s\<lparr>isFlipping := True, currentPage := currentPage s - 2\<rparr>;
            currentSpread = currentPage s1 div 2;
            s2 = fireFlipStart (currentPage s1) (Some Prev) s1
        in case page_at s2 currentSpread of
             Some r \<Rightarrow>
               (Awaiting, animateFlip r (- 180) 0 (style r (\<lambda>sp. sp\<lparr>zIndex := 100\<rparr>) s2))
           | None \<Rightarrow>
               (let s3 = s2\<lparr>isFlipping := False\<rparr>
                in (Returned True, fireFlipEnd (currentPage s3) (Some Prev) s3)))"

definition prevPage_resume :: "book \<Rightarrow> bool \<times> book" where
  "prevPage_resume s =
     (let s1 = updatePageVisibility s;
          s2 = s1\<lparr>isFlipping := False\<rparr>
      in (True, fireFlipEnd (currentPage s2) (Some Prev) s2))"

definition prevPage :: "book \<Rightarrow> bool \<times> book" where
  "prevPage s =
     (case prevPage_begin s of
        (Returned b, s') \<Rightarrow> (b, s')
      | (Awaiting, s') \<Rightarrow> prevPage_resume s')"

subsection \<open>\<^verbatim>\<open>goToPage\<close>\<close>

text \<open>
  \<^verbatim>\<open>goToPage\<close> is \<^verbatim>\<open>async\<close> without an \<^verbatim>\<open>await\<close>: its whole body runs in the call. The
  argument is a leaf index, an integer.
\<close>

definition goToPage :: "int \<Rightarrow> book \<Rightarrow> bool \<times> book" where
  "goToPage target s =
     (if isFlipping s then (False, s)
      else
        let p1 = max 0 (min target (totalPages s - 1));
            p2 = (p1 div 2) * 2
        in if p2 = currentPage s then (True, s)
           else
             let s1 = updatePageVisibility (s\<lparr>currentPage := p2\<rparr>)
             in (True, fireFlipEnd (currentPage s1) (Some Goto) s1))"

section \<open>Drag gestures\<close>

definition getFlippingPage :: "direction \<Rightarrow> book \<Rightarrow> nat option" where
  "getFlippingPage d s =
     (if d = Next then page_at s (currentPage s div 2)
      else page_at s (currentPage s div 2 - 1))"

text \<open>The rest of \<^verbatim>\<open>_startDrag\<close> once the direction and the page are chosen.\<close>

definition grab :: "real \<Rightarrow> real \<Rightarrow> book \<Rightarrow> book" where
  "grab x y s =
     (case dragPage s of
        None \<Rightarrow> s
      | Some r \<Rightarrow>
          style r (\<lambda>sp. sp\<lparr>zIndex := 100\<rparr>)
            (s\<lparr>isDragging := True, dragStartX := x, dragStartY := y,
               dragCurrentX := x, dragCurrentY := y, dragProgress := Fin 0\<rparr>))"

definition startDrag :: "real \<Rightarrow> real \<Rightarrow> real \<Rightarrow> real \<Rightarrow> book \<Rightarrow> book" where
  "startDrag x y width height s =
     (let isRightEdge = js_lt (js_mul (Fin width) (Fin double_0_6)) x;
          isLeftEdge = js_gt (js_mul (Fin width) (Fin double_0_4)) x
      in if isRightEdge \<and> currentPage s < totalPages s - 2 then
           grab x y (s\<lparr>dragDirection := Some Next, dragPage := getFlippingPage Next s\<rparr>)
         else if isLeftEdge \<and> currentPage s > 0 then
           grab x y (s\<lparr>dragDirection := Some Prev, dragPage := getFlippingPage Prev s\<rparr>)
         else s)"

definition applyCurlEffect :: "jsnum \<Rightarrow> book \<Rightarrow> book" where
  "applyCurlEffect progress s =
     (case dragPage s of
        None \<Rightarrow> s
      | Some r \<Rightarrow>
          let angle = (if dragDirection s = Some Next then js_mul (js_neg progress) (Fin 180)
                       else js_add (Fin (- 180)) (js_mul progress (Fin 180)))
          in style r (\<lambda>sp. sp\<lparr>rotation := angle\<rparr>) s)"

definition updateDrag :: "real \<Rightarrow> real \<Rightarrow> real \<Rightarrow> real \<Rightarrow> book \<Rightarrow> book" where
  "updateDrag x y width height s =
     (let s1 = s\<lparr>dragCurrentX := x, dragCurrentY := y\<rparr>;
          deltaX = js_sub (Fin (dragCurrentX s1)) (Fin (dragStartX s1));
          halfWidth = js_div (Fin width) (Fin 2);
          p = (if dragDirection s1 = Some Next
               then js_max 0 (js_min 1 (js_div (js_neg deltaX) halfWidth))
               else js_max 0 (js_min 1 (js_div deltaX halfWidth)))
      in applyCurlEffect p (s1\<lparr>dragProgress := p\<rparr>))"

definition cleanupDragPage :: "book \<Rightarrow> book" where
  "cleanupDragPage s = s\<lparr>dragPage := None, dragDirection := None, dragProgress := Fin 0\<rparr>"

definition completeFlip_begin :: "book \<Rightarrow> unit outcome \<times> book" where
  "completeFlip_begin s =
     (case dragPage s of
        None \<Rightarrow> (Returned (), s)
      | Some r \<Rightarrow>
          let s1 = s\<lparr>isFlipping := True\<rparr>;
              s2 = fireFlipStart (currentPage s1) (dragDirection s1) s1;
              targetAngle = (if dragDirection s2 = Some Next then - 180 else 0)
          in (Awaiting, animateToAngle r targetAngle s2))"

definition completeFlip_resume :: "book \<Rightarrow> book" where
  "completeFlip_resume s =
     (let s1 = (if dragDirection s = Some Next then s\<lparr>currentPage := currentPage s + 2\<rparr>
                else s\<lparr>currentPage := currentPage s - 2\<rparr>);
          s2 = updatePageVisibility (cleanupDragPage s1);
          s3 = s2\<lparr>isFlipping := False\<rparr>
      in fireFlipEnd (currentPage s3) (dragDirection s3) s3)"

definition cancelFlip_begin :: "book \<Rightarrow> unit outcome \<times> book" where
  "cancelFlip_begin s =
     (case dragPage s of
        None \<Rightarrow> (Returned (), s)
      | Some r \<Rightarrow>
          let targetAngle = (if dragDirection s = Some Next then 0 else - 180)
          in (Awaiting, animateToAngle r targetAngle s))"

definition cancelFlip_resume :: "book \<Rightarrow> book" where
  "cancelFlip_resume s = updatePageVisibility (cleanupDragPage s)"

text \<open>
  \<^verbatim>\<open>_endDrag\<close> calls \<^verbatim>\<open>_completeFlip\<close> or \<^verbatim>\<open>_cancelFlip\<close> without awaiting it, so the
  callee runs up to its \<^verbatim>\<open>await\<close> and \<^verbatim>\<open>_endDrag\<close> goes on to clear \<^verbatim>\<open>isDragging\<close>. The
  result names the continuation that is left waiting for the animation, if any.
\<close>

datatype task = CompleteFlip | CancelFlip

definition endDrag :: "book \<Rightarrow> task option \<times> book" where
  "endDrag s =
     (if \<not> isDragging s then (None, s)
      else
        let shouldComplete = js_gt (dragProgress s) double_0_3;
            r = (if shouldComplete then completeFlip_begin s else cancelFlip_begin s);
            waiting = (case fst r of
                         Awaiting \<Rightarrow> Some (if shouldComplete then CompleteFlip else CancelFlip)
                       | Returned u \<Rightarrow> None)
        in (waiting, (snd r)\<lparr>isDragging := False\<rparr>))"

fun resume_task :: "task \<Rightarrow> book \<Rightarrow> book" where
  "resume_task CompleteFlip s = completeFlip_resume s"
| "resume_task CancelFlip s = cancelFlip_resume s"

subsection \<open>The pointer handlers\<close>

text \<open>
  The mouse and the touch handlers are the same code. Their arguments are the pointer
  position relative to the book element and the element's size, which the source computes
  from the event and \<^verbatim>\<open>getBoundingClientRect\<close>.
\<close>

definition handleMouseDown :: "real \<Rightarrow> real \<Rightarrow> real \<Rightarrow> real \<Rightarrow> book \<Rightarrow> book" where
  "handleMouseDown x y width height s =
     (if isFlipping s then s else startDrag x y width height s)"

definition handleMouseMove :: "real \<Rightarrow> real \<Rightarrow> real \<Rightarrow> real \<Rightarrow> book \<Rightarrow> book" where
  "handleMouseMove x y width height s =
     (if \<not> isDragging s then s else updateDrag x y width height s)"

definition handleMouseUp :: "book \<Rightarrow> task option \<times> book" where
  "handleMouseUp s = (if \<not> isDragging s then (None, s) else endDrag s)"

type_synonym pointer = "real \<times> real \<times> real \<times> real"

fun moves :: "pointer list \<Rightarrow> book \<Rightarrow> book" where
  "moves [] s = s"
| "moves ((x, y, w, h) # ms) s = moves ms (handleMouseMove x y w h s)"

text \<open>The animation that a released drag left waiting, completed.\<close>

definition finish :: "task option \<times> book \<Rightarrow> book" where
  "finish r = (case fst r of None \<Rightarrow> snd r | Some k \<Rightarrow> resume_task k (snd r))"

text \<open>
  A whole gesture: pointer down, any number of pointer moves, pointer up, and the
  completion of the settling animation, with nothing else happening in between.
\<close>

definition gesture :: "pointer \<Rightarrow> pointer list \<Rightarrow> book \<Rightarrow> book" where
  "gesture d ms s =
     (case d of (x, y, w, h) \<Rightarrow> finish (handleMouseUp (moves ms (handleMouseDown x y w h s))))"

section \<open>Sequences of operations and reachable states\<close>

datatype operation =
    LoadPages "content list"
  | NextPage
  | PrevPage
  | GoToPage int
  | Gesture pointer "pointer list"

fun run_op :: "operation \<Rightarrow> book \<Rightarrow> book" where
  "run_op (LoadPages cs) s = loadPages cs s"
| "run_op NextPage s = snd (nextPage s)"
| "run_op PrevPage s = snd (prevPage s)"
| "run_op (GoToPage p) s = snd (goToPage p s)"
| "run_op (Gesture d ms) s = gesture d ms s"

fun run_ops :: "operation list \<Rightarrow> book \<Rightarrow> book" where
  "run_ops [] s = s"
| "run_ops (c # cs) s = run_ops cs (run_op c s)"

text \<open>
  The states the engine can be in when calls, pointer events and animation completions
  arrive in any order. A continuation is allowed to run at any time, which only adds
  states.
\<close>

inductive reachable :: "book \<Rightarrow> bool" where
  constructed: "reachable (new_book startCb endCb)"
| loaded: "reachable s \<Longrightarrow> reachable (loadPages cs s)"
| next_called: "reachable s \<Longrightarrow> reachable (snd (nextPage_begin s))"
| next_resumed: "reachable s \<Longrightarrow> reachable (snd (nextPage_resume s))"
| prev_called: "reachable s \<Longrightarrow> reachable (snd (prevPage_begin s))"
| prev_resumed: "reachable s \<Longrightarrow> reachable (snd (prevPage_resume s))"
| goto_called: "reachable s \<Longrightarrow> reachable (snd (goToPage p s))"
| pointer_down: "reachable s \<Longrightarrow> reachable (handleMouseDown x y w h s)"
| pointer_move: "reachable s \<Longrightarrow> reachable (handleMouseMove x y w h s)"
| pointer_up: "reachable s \<Longrightarrow> reachable (snd (handleMouseUp s))"
| drag_settled: "reachable s \<Longrightarrow> reachable (resume_task k s)"

text \<open>
  What every reachable state satisfies: the leaf position is even, there is one spread for
  every two leaves, and the references in \<^verbatim>\<open>this.pages\<close> are distinct elements of the
  store.
\<close>

definition book_inv :: "book \<Rightarrow> bool" where
  "book_inv s \<longleftrightarrow>
     even (currentPage s) \<and>
     0 \<le> totalPages s \<and>
     int (length (pages s)) = (totalPages s + 1) div 2 \<and>
     distinct (pages s) \<and>
     (\<forall>r \<in> set (pages s). r < length (elems s))"

text \<open>What holds between the calls of a sequence of operations.\<close>

definition settled :: "book \<Rightarrow> bool" where
  "settled s \<longleftrightarrow> 0 \<le> currentPage s \<and> even (currentPage s) \<and> \<not> isFlipping s \<and> \<not> isDragging s"

text \<open>What holds from pointer-down to pointer-up within one gesture.\<close>

definition held :: "book \<Rightarrow> bool" where
  "held s \<longleftrightarrow>
     0 \<le> currentPage s \<and> even (currentPage s) \<and> \<not> isFlipping s \<and>
     (isDragging s \<longrightarrow>
        dragPage s \<noteq> None \<and>
        (dragDirection s = Some Next \<or> dragDirection s = Some Prev \<and> 0 < currentPage s))"

text \<open>
  \<open>grabbed s0 d r s\<close>: in \<open>s\<close> a drag is active that began in \<open>s0\<close>, in direction \<open>d\<close> on the
  spread \<open>r\<close>, and nothing but the drag has touched the engine since.
\<close>

definition grabbed :: "book \<Rightarrow> direction \<Rightarrow> nat \<Rightarrow> book \<Rightarrow> bool" where
  "grabbed s0 d r s \<longleftrightarrow>
     isDragging s \<and> \<not> isFlipping s \<and> dragDirection s = Some d \<and> dragPage s = Some r \<and>
     (d = Next \<and> page_at s0 (currentPage s0 div 2) = Some r \<or>
      d = Prev \<and> page_at s0 (currentPage s0 div 2 - 1) = Some r) \<and>
     currentPage s = currentPage s0 \<and> totalPages s = totalPages s0 \<and> pages s = pages s0 \<and>
     length (elems s) = length (elems s0) \<and> emitted s = emitted s0 \<and>
     onFlipStart s = onFlipStart s0 \<and> onFlipEnd s = onFlipEnd s0"

text \<open>
  For the facts about \<^verbatim>\<open>loadPages\<close>: the contents that the round for leaf \<open>i\<close> puts into
  pages, those that the rounds from leaf \<open>i\<close> on put into pages, and the spread as the
  round for leaf \<open>i\<close> leaves it.
\<close>

definition placed_round :: "content list \<Rightarrow> nat \<Rightarrow> content list" where
  "placed_round cs i = cs ! i # (case or_null cs (i + 1) of Some c \<Rightarrow> [c] | None \<Rightarrow> [])"

function placed :: "content list \<Rightarrow> nat \<Rightarrow> content list" where
  "placed cs i = (if i < length cs then placed_round cs i @ placed cs (i + 2) else [])"
  by pat_completeness auto
termination
  by (relation "measure (\<lambda>(cs, i). length cs - i)") auto

declare placed.simps [simp del]

definition new_spread :: "content list \<Rightarrow> nat \<Rightarrow> spread" where
  "new_spread cs i =
     \<lparr>index = i div 2,
      leaves = (case or_null cs (i + 1) of
                  None \<Rightarrow> [\<lparr>pageSide = LeftSide, pageNumber = i, inner = Some (cs ! i)\<rparr>]
                | Some c \<Rightarrow>
                    [takeOut c \<lparr>pageSide = LeftSide, pageNumber = i, inner = Some (cs ! i)\<rparr>,
                     \<lparr>pageSide = RightSide, pageNumber = i + 1, inner = Some c\<rparr>]),
      zIndex = 0,
      rotation = Fin 0\<rparr>"

text \<open>The spread made for leaf \<open>j\<close> as the whole loop leaves it.\<close>

definition built :: "content list \<Rightarrow> nat \<Rightarrow> spread" where
  "built cs j = fold takeOutOf (placed cs (j + 2)) (new_spread cs j)"

text \<open>
  What a page that was given the content \<open>v\<close> holds after the contents \<open>xs\<close> have been put
  into other pages: \<open>v\<close>, unless it is an element among \<open>xs\<close>. So \<open>shown cs j\<close> is what the
  page of leaf \<open>j\<close> holds once all pages are built: its own content, unless that is an
  element given again for a later leaf, which then holds it.
\<close>

fun hold :: "content list \<Rightarrow> content \<Rightarrow> content option" where
  "hold xs (Str t) = Some (Str t)"
| "hold xs (Elem e) = (if Elem e \<in> set xs then None else Some (Elem e))"

definition shown :: "content list \<Rightarrow> nat \<Rightarrow> content option" where
  "shown cs j = hold (drop (Suc j) cs) (cs ! j)"

section \<open>Facts about the store and about settling\<close>

lemma length_modify [simp]: "length (modify r f es) = length es"
  by (simp add: modify_def)

lemma length_settle_each [simp]: "length (settle_each n cur i rs es) = length es"
  by (induction rs arbitrary: i es) auto

lemma modify_nth_other: "r \<noteq> q \<Longrightarrow> modify r f es ! q = es ! q"
  by (simp add: modify_def)

lemma modify_nth_same: "r < length es \<Longrightarrow> modify r f es ! r = f (es ! r)"
  by (simp add: modify_def)

lemma settle_each_other: "q \<notin> set rs \<Longrightarrow> settle_each n cur i rs es ! q = es ! q"
  by (induction rs arbitrary: i es) (auto simp: modify_nth_other)

text \<open>Settling gives the spread at position \<open>k\<close> of the list the style of position \<open>k\<close>.\<close>

lemma settle_each_nth:
  "distinct rs \<Longrightarrow> \<forall>r \<in> set rs. r < length es \<Longrightarrow> k < length rs \<Longrightarrow>
   settle_each n cur i rs es ! (rs ! k) = settle n cur (i + k) (es ! (rs ! k))"
proof (induction rs arbitrary: i es k)
  case Nil
  then show ?case by simp
next
  case (Cons r rs)
  show ?case
  proof (cases k)
    case 0
    with Cons.prems show ?thesis
      by (simp add: settle_each_other modify_nth_same)
  next
    case (Suc j)
    with Cons.prems have j: "j < length rs" and d: "distinct rs" and ne: "rs ! j \<noteq> r"
      by auto
    from Cons.prems have v: "\<forall>q \<in> set rs. q < length (modify r (settle n cur i) es)"
      by simp
    from Cons.IH [OF d v j, of "Suc i"] Suc ne show ?thesis
      by (simp add: modify_nth_other)
  qed
qed

section \<open>Facts about \<^verbatim>\<open>loadPages\<close>\<close>

lemma half_step: "i < n \<Longrightarrow> (n + 1 - i) div 2 = Suc ((n + 1 - (i + 2)) div 2)" for i n :: nat
  by arith

lemma map_step:
  "map (\<lambda>k. f (i + 2 * k)) [0 ..< Suc m] = f i # map (\<lambda>k. f (i + 2 + 2 * k)) [0 ..< m]"
  for f :: "nat \<Rightarrow> 'a"
  by (induction m) auto

lemma upt_step: "[a ..< a + Suc m] = a # [Suc a ..< Suc a + m]"
  by (simp add: upt_conv_Cons del: upt_Suc)

lemma modify_last: "modify (length es) f (es @ [sp]) = es @ [f sp]"
  by (simp add: modify_def)

lemma takeOutOf_no_leaves: "leaves sp = [] \<Longrightarrow> takeOutOf c sp = sp"
  by (simp add: takeOutOf_def)

text \<open>One spread is created: the older elements lose what it takes, and it comes last.\<close>

lemma createSpread_eq:
  "createSpread (cs ! i) (or_null cs (i + 1)) i es =
     (length es, map (fold takeOutOf (placed_round cs i)) es @ [new_spread cs i])"
proof (cases "or_null cs (i + 1)")
  case None
  then show ?thesis
    by (simp add: createSpread_def createPage_def appendPage_def Let_def placed_round_def
        new_spread_def takeOutOf_no_leaves modify_last [of "map f es" for f, simplified])
next
  case (Some c)
  then have "truthy c" by (simp add: or_null_def split: if_splits)
  with Some show ?thesis
    by (simp add: createSpread_def createPage_def appendPage_def Let_def placed_round_def
        new_spread_def takeOutOf_no_leaves modify_last [of "map f es" for f, simplified]
        takeOutOf_def)
qed

lemma push_spread_eq:
  "push_spread cs i s =
     s\<lparr>pages := pages s @ [length (elems s)],
       elems := map (fold takeOutOf (placed_round cs i)) (elems s) @ [new_spread cs i]\<rparr>"
  by (simp only: push_spread_def createSpread_eq Let_def fst_conv snd_conv)

text \<open>
  The loop started at leaf \<open>i\<close> appends one new element for each second leaf from \<open>i\<close> on,
  takes out of every element the contents placed after it, and touches no other field.
\<close>

lemma loop_eq:
  "loadPages_loop cs i s =
     s\<lparr>pages := pages s @ [length (elems s) ..< length (elems s) + (length cs + 1 - i) div 2],
       elems := map (fold takeOutOf (placed cs i)) (elems s) @
                map (\<lambda>k. built cs (i + 2 * k)) [0 ..< (length cs + 1 - i) div 2]\<rparr>"
proof (induction cs i s rule: loadPages_loop.induct)
  case (1 cs i s)
  show ?case
  proof (cases "i < length cs")
    case False
    then have "(length cs + 1 - i) div 2 = 0" by auto
    with False show ?thesis
      by (simp add: loadPages_loop.simps [of cs i s] placed.simps [of cs i])
  next
    case True
    have pl: "placed cs i = placed_round cs i @ placed cs (i + 2)"
      using True by (simp add: placed.simps [of cs i])
    have old: "map (fold takeOutOf (placed cs (i + 2)))
                 (map (fold takeOutOf (placed_round cs i)) (elems s) @ [new_spread cs i]) =
               map (fold takeOutOf (placed cs i)) (elems s) @ [built cs i]"
      by (simp add: pl built_def)
    have "loadPages_loop cs i s = loadPages_loop cs (i + 2) (push_spread cs i s)"
      using True by (simp add: loadPages_loop.simps [of cs i s])
    also have "\<dots> = (push_spread cs i s)
      \<lparr>pages := pages (push_spread cs i s) @
          [length (elems (push_spread cs i s)) ..<
           length (elems (push_spread cs i s)) + (length cs + 1 - (i + 2)) div 2],
       elems := map (fold takeOutOf (placed cs (i + 2))) (elems (push_spread cs i s)) @
          map (\<lambda>k. built cs (i + 2 + 2 * k)) [0 ..< (length cs + 1 - (i + 2)) div 2]\<rparr>"
      by (rule "1.IH" [OF True])
    also have "\<dots> = s\<lparr>pages := (pages s @ [length (elems s)]) @
        [Suc (length (elems s)) ..< Suc (length (elems s)) + (length cs + 1 - (i + 2)) div 2],
       elems := (map (fold takeOutOf (placed cs i)) (elems s) @ [built cs i]) @
        map (\<lambda>k. built cs (i + 2 + 2 * k)) [0 ..< (length cs + 1 - (i + 2)) div 2]\<rparr>"
      unfolding push_spread_eq using old by simp
    also have "\<dots> = s\<lparr>pages := pages s @ [length (elems s) ..< length (elems s) + (length cs + 1 - i) div 2],
       elems := map (fold takeOutOf (placed cs i)) (elems s) @
                map (\<lambda>k. built cs (i + 2 * k)) [0 ..< (length cs + 1 - i) div 2]\<rparr>"
      unfolding half_step [OF True] upt_step map_step by simp
    finally show ?thesis .
  qed
qed

lemma loadPages_eq:
  "loadPages cs s =
     s\<lparr>totalPages := int (length cs),
       pages := [length (elems s) ..< length (elems s) + (length cs + 1) div 2],
       elems := settle_each ((length cs + 1) div 2) (currentPage s div 2) 0
                  [length (elems s) ..< length (elems s) + (length cs + 1) div 2]
                  (map (fold takeOutOf (placed cs 0)) (elems s) @
                   map (\<lambda>k. built cs (2 * k)) [0 ..< (length cs + 1) div 2])\<rparr>"
  by (simp add: loadPages_def loop_eq updatePageVisibility_def)

lemma loadPages_nth:
  assumes "k < (length cs + 1) div 2"
  shows "elems (loadPages cs s) ! (pages (loadPages cs s) ! k) =
           settle ((length cs + 1) div 2) (currentPage s div 2) k (built cs (2 * k))"
proof -
  let ?L = "length (elems s)" and ?m = "(length cs + 1) div 2"
  let ?rs = "[?L ..< ?L + ?m]"
  let ?es = "map (fold takeOutOf (placed cs 0)) (elems s) @
             map (\<lambda>k. built cs (2 * k)) [0 ..< ?m]"
  have d: "distinct ?rs" by simp
  have v: "\<forall>r \<in> set ?rs. r < length ?es" by simp
  have k: "k < length ?rs" using assms by simp
  have "?es ! (?rs ! k) = built cs (2 * k)"
    using assms by (simp add: nth_append)
  with settle_each_nth [OF d v k, of ?m "currentPage s div 2" 0] assms
  show ?thesis by (simp add: loadPages_eq)
qed

lemma rotation_settle:
  "rotation (settle n cur k sp) = (if int k < cur then Fin (- 180) else Fin 0)"
  by (simp add: settle_def)

section \<open>What the helpers leave alone\<close>

lemma style_fields [simp]:
  "currentPage (style r f s) = currentPage s"
  "totalPages (style r f s) = totalPages s"
  "pages (style r f s) = pages s"
  "isFlipping (style r f s) = isFlipping s"
  "isDragging (style r f s) = isDragging s"
  "dragPage (style r f s) = dragPage s"
  "dragDirection (style r f s) = dragDirection s"
  "dragProgress (style r f s) = dragProgress s"
  "dragStartX (style r f s) = dragStartX s"
  "emitted (style r f s) = emitted s"
  "onFlipStart (style r f s) = onFlipStart s"
  "onFlipEnd (style r f s) = onFlipEnd s"
  "length (elems (style r f s)) = length (elems s)"
  by (simp_all add: style_def)

lemma fireFlipStart_fields [simp]:
  "currentPage (fireFlipStart p d s) = currentPage s"
  "totalPages (fireFlipStart p d s) = totalPages s"
  "pages (fireFlipStart p d s) = pages s"
  "isFlipping (fireFlipStart p d s) = isFlipping s"
  "isDragging (fireFlipStart p d s) = isDragging s"
  "dragPage (fireFlipStart p d s) = dragPage s"
  "dragDirection (fireFlipStart p d s) = dragDirection s"
  "dragProgress (fireFlipStart p d s) = dragProgress s"
  "dragStartX (fireFlipStart p d s) = dragStartX s"
  "onFlipStart (fireFlipStart p d s) = onFlipStart s"
  "onFlipEnd (fireFlipStart p d s) = onFlipEnd s"
  "elems (fireFlipStart p d s) = elems s"
  by (simp_all add: fireFlipStart_def)

lemma fireFlipEnd_fields [simp]:
  "currentPage (fireFlipEnd p d s) = currentPage s"
  "totalPages (fireFlipEnd p d s) = totalPages s"
  "pages (fireFlipEnd p d s) = pages s"
  "isFlipping (fireFlipEnd p d s) = isFlipping s"
  "isDragging (fireFlipEnd p d s) = isDragging s"
  "dragPage (fireFlipEnd p d s) = dragPage s"
  "dragDirection (fireFlipEnd p d s) = dragDirection s"
  "dragProgress (fireFlipEnd p d s) = dragProgress s"
  "dragStartX (fireFlipEnd p d s) = dragStartX s"
  "onFlipStart (fireFlipEnd p d s) = onFlipStart s"
  "onFlipEnd (fireFlipEnd p d s) = onFlipEnd s"
  "elems (fireFlipEnd p d s) = elems s"
  by (simp_all add: fireFlipEnd_def)

lemma updatePageVisibility_fields [simp]:
  "currentPage (updatePageVisibility s) = currentPage s"
  "totalPages (updatePageVisibility s) = totalPages s"
  "pages (updatePageVisibility s) = pages s"
  "isFlipping (updatePageVisibility s) = isFlipping s"
  "isDragging (updatePageVisibility s) = isDragging s"
  "dragPage (updatePageVisibility s) = dragPage s"
  "dragDirection (updatePageVisibility s) = dragDirection s"
  "dragProgress (updatePageVisibility s) = dragProgress s"
  "dragStartX (updatePageVisibility s) = dragStartX s"
  "emitted (updatePageVisibility s) = emitted s"
  "onFlipStart (updatePageVisibility s) = onFlipStart s"
  "onFlipEnd (updatePageVisibility s) = onFlipEnd s"
  "length (elems (updatePageVisibility s)) = length (elems s)"
  by (simp_all add: updatePageVisibility_def)

section \<open>The invariant of reachable states\<close>

lemma page_at_frame:
  "pages s' = pages s \<Longrightarrow> page_at s' i = page_at s i"
  by (simp add: page_at_def)

lemma book_inv_new: "book_inv (new_book a b)"
  by (simp add: book_inv_def new_book_def)

lemma book_inv_loadPages: "book_inv s \<Longrightarrow> book_inv (loadPages cs s)"
  by (simp add: book_inv_def loadPages_eq zdiv_int)

lemma book_inv_nextPage_begin: "book_inv s \<Longrightarrow> book_inv (snd (nextPage_begin s))"
  by (simp add: book_inv_def nextPage_begin_def Let_def animateFlip_def split: option.splits)

lemma book_inv_nextPage_resume: "book_inv s \<Longrightarrow> book_inv (snd (nextPage_resume s))"
  by (simp add: book_inv_def nextPage_resume_def Let_def)

lemma book_inv_prevPage_begin: "book_inv s \<Longrightarrow> book_inv (snd (prevPage_begin s))"
  by (simp add: book_inv_def prevPage_begin_def Let_def animateFlip_def split: option.splits)

lemma book_inv_prevPage_resume: "book_inv s \<Longrightarrow> book_inv (snd (prevPage_resume s))"
  by (simp add: book_inv_def prevPage_resume_def Let_def)

lemma book_inv_goToPage: "book_inv s \<Longrightarrow> book_inv (snd (goToPage p s))"
  by (simp add: book_inv_def goToPage_def Let_def)

lemma grab_fields [simp]:
  "currentPage (grab x y s) = currentPage s"
  "totalPages (grab x y s) = totalPages s"
  "pages (grab x y s) = pages s"
  "isFlipping (grab x y s) = isFlipping s"
  "dragPage (grab x y s) = dragPage s"
  "dragDirection (grab x y s) = dragDirection s"
  "emitted (grab x y s) = emitted s"
  "onFlipStart (grab x y s) = onFlipStart s"
  "onFlipEnd (grab x y s) = onFlipEnd s"
  "length (elems (grab x y s)) = length (elems s)"
  by (simp_all add: grab_def split: option.splits)

lemma book_inv_handleMouseDown: "book_inv s \<Longrightarrow> book_inv (handleMouseDown x y w h s)"
  by (simp add: book_inv_def handleMouseDown_def startDrag_def Let_def)

lemma applyCurlEffect_fields [simp]:
  "currentPage (applyCurlEffect p s) = currentPage s"
  "totalPages (applyCurlEffect p s) = totalPages s"
  "pages (applyCurlEffect p s) = pages s"
  "isFlipping (applyCurlEffect p s) = isFlipping s"
  "isDragging (applyCurlEffect p s) = isDragging s"
  "dragPage (applyCurlEffect p s) = dragPage s"
  "dragDirection (applyCurlEffect p s) = dragDirection s"
  "dragProgress (applyCurlEffect p s) = dragProgress s"
  "dragStartX (applyCurlEffect p s) = dragStartX s"
  "emitted (applyCurlEffect p s) = emitted s"
  "onFlipStart (applyCurlEffect p s) = onFlipStart s"
  "onFlipEnd (applyCurlEffect p s) = onFlipEnd s"
  "length (elems (applyCurlEffect p s)) = length (elems s)"
  by (simp_all add: applyCurlEffect_def Let_def split: option.splits)

lemma book_inv_handleMouseMove: "book_inv s \<Longrightarrow> book_inv (handleMouseMove x y w h s)"
  by (simp add: book_inv_def handleMouseMove_def updateDrag_def Let_def)

lemma book_inv_handleMouseUp: "book_inv s \<Longrightarrow> book_inv (snd (handleMouseUp s))"
  by (simp add: book_inv_def handleMouseUp_def endDrag_def completeFlip_begin_def
      cancelFlip_begin_def animateToAngle_def Let_def split: option.splits)

lemma book_inv_resume_task: "book_inv s \<Longrightarrow> book_inv (resume_task k s)"
  by (cases k) (simp_all add: book_inv_def completeFlip_resume_def cancelFlip_resume_def
      cleanupDragPage_def Let_def)

lemma reachable_inv: "reachable s \<Longrightarrow> book_inv s"
  by (induction rule: reachable.induct)
    (simp_all add: book_inv_new book_inv_loadPages book_inv_nextPage_begin
      book_inv_nextPage_resume book_inv_prevPage_begin book_inv_prevPage_resume
      book_inv_goToPage book_inv_handleMouseDown book_inv_handleMouseMove
      book_inv_handleMouseUp book_inv_resume_task)

section \<open>Rebuilding and the reading position\<close>

text \<open>What \<^verbatim>\<open>loadPages\<close> does to the fields other than the spread list.\<close>

lemma loadPages_fields:
  "currentPage (loadPages cs s) = currentPage s"
  "totalPages (loadPages cs s) = int (length cs)"
  "isFlipping (loadPages cs s) = isFlipping s"
  "isDragging (loadPages cs s) = isDragging s"
  "dragPage (loadPages cs s) = dragPage s"
  "dragDirection (loadPages cs s) = dragDirection s"
  "dragProgress (loadPages cs s) = dragProgress s"
  "emitted (loadPages cs s) = emitted s"
  by (simp_all add: loadPages_eq)

text \<open>
  Claim C1 says that rebuilding with \<^verbatim>\<open>loadPages\<close> resets the reading position to 0 and
  discards the prior rotation and animation state. \<^verbatim>\<open>loadPages\<close> assigns \<^verbatim>\<open>pages\<close> and
  \<^verbatim>\<open>totalPages\<close> and nothing else. A book of four leaves moved to leaf 2 and rebuilt from
  two leaves is still at leaf 2, which is its total of leaves, with its only spread turned
  to \<open>-180\<close> degrees: a position that the clamp of \<^verbatim>\<open>goToPage\<close> and the guards of
  \<^verbatim>\<open>nextPage\<close> and \<^verbatim>\<open>_startDrag\<close> never give. A rebuild while a drag is held leaves
  \<^verbatim>\<open>isDragging\<close> set and \<^verbatim>\<open>dragPage\<close> referring to a spread of the discarded build.
\<close>

theorem loadPages_keeps_stale_position:
  "currentPage
     (loadPages [Str ''a'', Str ''b'']
        (snd (goToPage 2
           (loadPages [Str ''a'', Str ''b'', Str ''c'', Str ''d''] (new_book False False))))) = 2 \<and>
   totalPages
     (loadPages [Str ''a'', Str ''b'']
        (snd (goToPage 2
           (loadPages [Str ''a'', Str ''b'', Str ''c'', Str ''d''] (new_book False False))))) = 2 \<and>
   pages
     (loadPages [Str ''a'', Str ''b'']
        (snd (goToPage 2
           (loadPages [Str ''a'', Str ''b'', Str ''c'', Str ''d''] (new_book False False))))) = [2] \<and>
   rotation (elems
     (loadPages [Str ''a'', Str ''b'']
        (snd (goToPage 2
           (loadPages [Str ''a'', Str ''b'', Str ''c'', Str ''d''] (new_book False False))))) ! 2)
     = Fin (- 180) \<and>
   isDragging
     (loadPages [Str ''a'', Str ''b'']
        (handleMouseDown 90 50 100 100
           (loadPages [Str ''a'', Str ''b'', Str ''c'', Str ''d''] (new_book False False)))) \<and>
   dragPage
     (loadPages [Str ''a'', Str ''b'']
        (handleMouseDown 90 50 100 100
           (loadPages [Str ''a'', Str ''b'', Str ''c'', Str ''d''] (new_book False False)))) = Some 0 \<and>
   pages
     (loadPages [Str ''a'', Str ''b'']
        (handleMouseDown 90 50 100 100
           (loadPages [Str ''a'', Str ''b'', Str ''c'', Str ''d''] (new_book False False)))) = [2]"
  by code_simp

section \<open>An empty book\<close>

text \<open>
  Claim C2 says that after building from an empty content sequence every navigation
  request, \<^verbatim>\<open>goToPage\<close> included, returns false. On a new engine built from no content
  \<^verbatim>\<open>goToPage(5)\<close> returns true; and since \<^verbatim>\<open>loadPages\<close> keeps the reading position, a
  book that was at leaf 2 and is rebuilt from no content accepts \<^verbatim>\<open>prevPage\<close>.
\<close>

theorem empty_book_counterexample:
  "totalPages (loadPages [] (new_book False False)) = 0 \<and>
   fst (goToPage 5 (loadPages [] (new_book False False))) = True \<and>
   fst (prevPage (loadPages []
      (snd (goToPage 2
         (loadPages [Str ''a'', Str ''b'', Str ''c'', Str ''d''] (new_book False False)))))) = True"
  by code_simp

text \<open>
  Claim C2, amended: after building from an empty content sequence a book whose reading
  position is 0 (as on a new engine), the total-page count is 0, \<^verbatim>\<open>nextPage\<close> and
  \<^verbatim>\<open>prevPage\<close> return false and change nothing, and \<^verbatim>\<open>goToPage\<close> with any argument changes
  nothing and returns true, or false while a flip is in flight.
\<close>

theorem empty_book_navigation:
  assumes "currentPage s = 0"
  shows "totalPages (loadPages [] s) = 0 \<and>
         nextPage (loadPages [] s) = (False, loadPages [] s) \<and>
         prevPage (loadPages [] s) = (False, loadPages [] s) \<and>
         goToPage p (loadPages [] s) = (\<not> isFlipping s, loadPages [] s)"
proof -
  let ?e = "loadPages [] s"
  have cp: "currentPage ?e = 0" and tp: "totalPages ?e = 0" and fl: "isFlipping ?e = isFlipping s"
    using assms by (simp_all add: loadPages_eq)
  have n: "nextPage ?e = (False, ?e)"
    by (simp add: nextPage_def nextPage_begin_def cp tp)
  have p: "prevPage ?e = (False, ?e)"
    by (simp add: prevPage_def prevPage_begin_def cp)
  have g: "goToPage p ?e = (\<not> isFlipping s, ?e)"
    by (simp add: goToPage_def cp tp fl Let_def)
  from tp n p g show ?thesis by simp
qed

theorem empty_book_navigation_witness:
  "currentPage (new_book True True) = 0 \<and>
   nextPage (loadPages [] (new_book True True)) = (False, loadPages [] (new_book True True)) \<and>
   goToPage 7 (loadPages [] (new_book True True)) = (True, loadPages [] (new_book True True))"
proof -
  have h: "currentPage (new_book True True) = 0" by (simp add: new_book_def)
  have f: "\<not> isFlipping (new_book True True)" by (simp add: new_book_def)
  from empty_book_navigation [OF h, of 7] h f show ?thesis by simp
qed

section \<open>Requests while a transition is in flight\<close>

text \<open>
  Claim C3 says that while a spread is mid-turn, be it from a discrete flip or from an
  active drag, every \<^verbatim>\<open>nextPage\<close>, \<^verbatim>\<open>prevPage\<close>, \<^verbatim>\<open>goToPage\<close> and drag start is
  rejected and changes nothing. The guards test \<^verbatim>\<open>isFlipping\<close>, which an active drag does
  not set. With four leaves and a drag begun at the right edge, \<^verbatim>\<open>goToPage(3)\<close> returns
  true and moves the book from leaf 0 to leaf 2, and \<^verbatim>\<open>nextPage\<close> is accepted as well. A
  \<^verbatim>\<open>goToPage(0)\<close> made during a backward drag from leaf 2, which is then released beyond
  the threshold, leaves \<^verbatim>\<open>currentPage\<close> at \<open>-2\<close>.
\<close>

theorem request_during_drag_accepted:
  "isDragging (handleMouseDown 90 50 100 100
      (loadPages [Str ''a'', Str ''b'', Str ''c'', Str ''d''] (new_book False False))) \<and>
   currentPage (handleMouseDown 90 50 100 100
      (loadPages [Str ''a'', Str ''b'', Str ''c'', Str ''d''] (new_book False False))) = 0 \<and>
   fst (goToPage 3 (handleMouseDown 90 50 100 100
      (loadPages [Str ''a'', Str ''b'', Str ''c'', Str ''d''] (new_book False False)))) = True \<and>
   currentPage (snd (goToPage 3 (handleMouseDown 90 50 100 100
      (loadPages [Str ''a'', Str ''b'', Str ''c'', Str ''d''] (new_book False False))))) = 2 \<and>
   fst (nextPage (handleMouseDown 90 50 100 100
      (loadPages [Str ''a'', Str ''b'', Str ''c'', Str ''d''] (new_book False False)))) = True \<and>
   currentPage (finish (handleMouseUp (handleMouseMove 70 50 100 100 (snd (goToPage 0
      (handleMouseDown 10 50 100 100 (snd (goToPage 2
         (loadPages [Str ''a'', Str ''b'', Str ''c'', Str ''d''] (new_book False False)))))))))) = - 2"
  by code_simp

text \<open>
  While \<^verbatim>\<open>isFlipping\<close> is set, that is from the start of a discrete flip, or of the
  committing animation of a released drag, until its completion, the requests are
  rejected and leave the whole state as it is.
\<close>

lemma flipping_rejects:
  assumes "isFlipping s"
  shows "nextPage s = (False, s) \<and> prevPage s = (False, s) \<and> goToPage p s = (False, s) \<and>
         handleMouseDown x y w h s = s"
  using assms
  by (simp add: nextPage_def nextPage_begin_def prevPage_def prevPage_begin_def goToPage_def
      handleMouseDown_def)

section \<open>Jumping to a leaf\<close>

text \<open>
  Claim C8: for every target leaf index and every idle book with at least one leaf,
  \<^verbatim>\<open>goToPage\<close> succeeds and lands on the target clamped into \<open>[0, totalPages - 1]\<close> and
  rounded down to an even leaf index, which lies in that range again; and a target that is
  a leaf of the current spread returns true and leaves the state as it is.
\<close>

theorem goToPage_lands_even:
  assumes "reachable s" and "\<not> isFlipping s" and "1 \<le> totalPages s"
  shows "fst (goToPage p s) = True \<and>
         currentPage (snd (goToPage p s)) = (max 0 (min p (totalPages s - 1)) div 2) * 2 \<and>
         even (currentPage (snd (goToPage p s))) \<and>
         0 \<le> currentPage (snd (goToPage p s)) \<and>
         currentPage (snd (goToPage p s)) \<le> totalPages s - 1 \<and>
         (0 \<le> p \<and> p < totalPages s \<and> p div 2 = currentPage s div 2 \<longrightarrow> goToPage p s = (True, s))"
proof -
  let ?q = "(max 0 (min p (totalPages s - 1)) div 2) * 2"
  have ev: "even (currentPage s)"
    using reachable_inv [OF assms(1)] by (simp add: book_inv_def)
  have r: "fst (goToPage p s) = True"
    using assms(2) by (simp add: goToPage_def Let_def)
  have c: "currentPage (snd (goToPage p s)) = ?q"
    using assms(2) by (simp add: goToPage_def Let_def)
  have lo: "0 \<le> ?q" by simp
  have hi: "?q \<le> totalPages s - 1"
    using assms(3) by (simp add: min_def max_def) presburger
  have same: "goToPage p s = (True, s)"
    if "0 \<le> p \<and> p < totalPages s \<and> p div 2 = currentPage s div 2"
  proof -
    from that have "max 0 (min p (totalPages s - 1)) = p" by simp
    with that ev have "?q = currentPage s" by simp
    with assms(2) show ?thesis by (simp add: goToPage_def Let_def)
  qed
  from r c lo hi same show ?thesis by simp
qed

theorem goToPage_lands_even_witness:
  "reachable (loadPages [Str ''a'', Str ''b'', Str ''c'', Str ''d'', Str ''e''] (new_book False False)) \<and>
   \<not> isFlipping (loadPages [Str ''a'', Str ''b'', Str ''c'', Str ''d'', Str ''e''] (new_book False False)) \<and>
   1 \<le> totalPages (loadPages [Str ''a'', Str ''b'', Str ''c'', Str ''d'', Str ''e''] (new_book False False)) \<and>
   currentPage (snd (goToPage 3
      (loadPages [Str ''a'', Str ''b'', Str ''c'', Str ''d'', Str ''e''] (new_book False False)))) = 2 \<and>
   goToPage 1 (loadPages [Str ''a'', Str ''b'', Str ''c'', Str ''d'', Str ''e''] (new_book False False)) =
     (True, loadPages [Str ''a'', Str ''b'', Str ''c'', Str ''d'', Str ''e''] (new_book False False))"
proof -
  let ?s = "loadPages [Str ''a'', Str ''b'', Str ''c'', Str ''d'', Str ''e''] (new_book False False)"
  have r: "reachable ?s" by (rule reachable.loaded [OF reachable.constructed])
  have f: "\<not> isFlipping ?s" by code_simp
  have t: "1 \<le> totalPages ?s" by code_simp
  have t5: "totalPages ?s = 5" by code_simp
  have c0: "currentPage ?s = 0" by code_simp
  from goToPage_lands_even [OF r f t, of 3] goToPage_lands_even [OF r f t, of 1] r f t t5 c0
  show ?thesis by simp
qed

section \<open>Pairing leaves into spreads\<close>

lemma settle_keeps_leaves [simp]:
  "index (settle n cur k sp) = index sp"
  "leaves (settle n cur k sp) = leaves sp"
  by (simp_all add: settle_def)

lemma fold_takeOutOf_fields [simp]:
  "index (fold takeOutOf xs sp) = index sp"
  "zIndex (fold takeOutOf xs sp) = zIndex sp"
  "rotation (fold takeOutOf xs sp) = rotation sp"
  "leaves (fold takeOutOf xs sp) = map (fold takeOut xs) (leaves sp)"
  by (induction xs arbitrary: sp) (simp_all add: takeOutOf_def)

lemma takeOut_fields [simp]:
  "pageSide (takeOut c p) = pageSide p"
  "pageNumber (takeOut c p) = pageNumber p"
  by (cases c; simp)+

lemma fold_takeOut_fields [simp]:
  "pageSide (fold takeOut xs p) = pageSide p"
  "pageNumber (fold takeOut xs p) = pageNumber p"
  by (induction xs arbitrary: p) simp_all

lemma hold_cong: "set xs \<inter> range Elem = set ys \<inter> range Elem \<Longrightarrow> hold xs v = hold ys v"
  by (cases v) auto

lemma inner_takeOut:
  "inner p = hold xs v \<Longrightarrow> inner (takeOut c p) = hold (c # xs) v"
  by (cases c; cases v) auto

lemma inner_fold_takeOut:
  "inner p = hold xs v \<Longrightarrow> inner (fold takeOut ys p) = hold (xs @ ys) v"
proof (induction ys arbitrary: p xs)
  case Nil
  then show ?case by simp
next
  case (Cons y ys)
  from Cons.prems have "inner (takeOut y p) = hold (y # xs) v" by (rule inner_takeOut)
  from Cons.IH [OF this] have "inner (fold takeOut ys (takeOut y p)) = hold ((y # xs) @ ys) v" .
  moreover have "hold ((y # xs) @ ys) v = hold (xs @ y # ys) v"
    by (rule hold_cong) auto
  ultimately show ?case by simp
qed

text \<open>The elements placed from leaf \<open>i\<close> on are the elements among the contents from \<open>i\<close> on.\<close>

lemma Elem_placed: "Elem e \<in> set (placed cs i) \<longleftrightarrow> Elem e \<in> set (drop i cs)"
proof (induction cs i rule: placed.induct)
  case (1 cs i)
  show ?case
  proof (cases "i < length cs")
    case False
    then show ?thesis by (simp add: placed.simps [of cs i])
  next
    case True
    note IH = "1.IH" [OF True]
    have d: "drop i cs = cs ! i # drop (Suc i) cs"
      using True by (simp add: Cons_nth_drop_Suc)
    show ?thesis
    proof (cases "Suc i < length cs")
      case False
      with True IH d show ?thesis
        by (simp add: placed.simps [of cs i] placed_round_def or_null_def)
    next
      case more: True
      then have d2: "drop (Suc i) cs = cs ! Suc i # drop (Suc (Suc i)) cs"
        by (simp add: Cons_nth_drop_Suc)
      have t: "truthy (cs ! Suc i)" if "Elem e = cs ! Suc i"
        using that by (metis truthy.simps(2))
      from True more IH d d2 t show ?thesis
        by (auto simp add: placed.simps [of cs i] placed_round_def or_null_def)
    qed
  qed
qed

lemma placed_elements: "set (placed cs i) \<inter> range Elem = set (drop i cs) \<inter> range Elem"
  using Elem_placed [of _ cs i] by auto

text \<open>The pages of the spread made for leaf \<open>j\<close>, as the whole loop leaves them.\<close>

lemma built_leaves:
  assumes "j < length cs"
  shows "map pageNumber (leaves (built cs j)) =
           (if j + 1 < length cs \<and> truthy (cs ! (j + 1)) then [j, j + 1] else [j])"
    and "map pageSide (leaves (built cs j)) =
           (if j + 1 < length cs \<and> truthy (cs ! (j + 1)) then [LeftSide, RightSide] else [LeftSide])"
    and "map inner (leaves (built cs j)) =
           (if j + 1 < length cs \<and> truthy (cs ! (j + 1)) then [shown cs j, shown cs (j + 1)]
            else [shown cs j])"
proof -
  show "map pageNumber (leaves (built cs j)) =
           (if j + 1 < length cs \<and> truthy (cs ! (j + 1)) then [j, j + 1] else [j])"
    by (simp add: built_def new_spread_def or_null_def)
  show "map pageSide (leaves (built cs j)) =
           (if j + 1 < length cs \<and> truthy (cs ! (j + 1)) then [LeftSide, RightSide] else [LeftSide])"
    by (simp add: built_def new_spread_def or_null_def)
  let ?L = "\<lparr>pageSide = LeftSide, pageNumber = j, inner = Some (cs ! j)\<rparr>"
  have start: "inner p = hold [] v" if "inner p = Some v" for p :: page and v
    using that by (cases v) simp_all
  show "map inner (leaves (built cs j)) =
           (if j + 1 < length cs \<and> truthy (cs ! (j + 1)) then [shown cs j, shown cs (j + 1)]
            else [shown cs j])"
  proof (cases "j + 1 < length cs \<and> truthy (cs ! (j + 1))")
    case True
    let ?c = "cs ! (j + 1)"
    let ?R = "\<lparr>pageSide = RightSide, pageNumber = j + 1, inner = Some ?c\<rparr>"
    from True have d: "drop (Suc j) cs = ?c # drop (Suc (Suc j)) cs"
      by (simp add: Cons_nth_drop_Suc)
    have "inner (takeOut ?c ?L) = hold [?c] (cs ! j)"
      by (rule inner_takeOut [OF start, of _ "cs ! j"]) simp
    then have "inner (fold takeOut (placed cs (j + 2)) (takeOut ?c ?L)) =
               hold ([?c] @ placed cs (j + 2)) (cs ! j)"
      by (rule inner_fold_takeOut)
    also have "\<dots> = shown cs j"
      unfolding shown_def by (rule hold_cong) (use placed_elements [of cs "j + 2"] d in auto)
    finally have l: "inner (fold takeOut (placed cs (j + 2)) (takeOut ?c ?L)) = shown cs j" .
    have "inner ?R = hold [] ?c" by (rule start) simp
    then have "inner (fold takeOut (placed cs (j + 2)) ?R) = hold ([] @ placed cs (j + 2)) ?c"
      by (rule inner_fold_takeOut)
    also have "\<dots> = shown cs (j + 1)"
      unfolding shown_def by (rule hold_cong) (use placed_elements [of cs "j + 2"] in auto)
    finally have r: "inner (fold takeOut (placed cs (j + 2)) ?R) = shown cs (j + 1)" .
    from True l r show ?thesis
      by (simp add: built_def new_spread_def or_null_def)
  next
    case False
    have e: "set (placed cs (j + 2)) \<inter> range Elem = set (drop (Suc j) cs) \<inter> range Elem"
    proof (cases "j + 1 < length cs")
      case True
      with False have "\<not> truthy (cs ! (j + 1))" by simp
      then have "cs ! (j + 1) \<notin> range Elem" by (cases "cs ! (j + 1)") auto
      moreover from True have "drop (Suc j) cs = cs ! (j + 1) # drop (Suc (Suc j)) cs"
        by (simp add: Cons_nth_drop_Suc)
      ultimately show ?thesis using placed_elements [of cs "j + 2"] by auto
    next
      case False
      then show ?thesis using placed_elements [of cs "j + 2"] by simp
    qed
    have "inner ?L = hold [] (cs ! j)" by (rule start) simp
    then have "inner (fold takeOut (placed cs (j + 2)) ?L) = hold ([] @ placed cs (j + 2)) (cs ! j)"
      by (rule inner_fold_takeOut)
    also have "\<dots> = shown cs j"
      unfolding shown_def by (rule hold_cong) (use e in simp)
    finally have "inner (fold takeOut (placed cs (j + 2)) ?L) = shown cs j" .
    with False show ?thesis
      by (auto simp add: built_def new_spread_def or_null_def)
  qed
qed

text \<open>
  Claim C6 says that the last spread holds a single leaf exactly when the number of
  contents is odd. The right-hand content is tested for truthiness
  (\<^verbatim>\<open>pageContents[i + 1] || null\<close>, \<^verbatim>\<open>if (rightContent)\<close>), so two contents of which
  the second is the empty string give one spread with a left page only.
\<close>

theorem build_pairs_counterexample:
  "length [Str ''a'', Str ''''] = 2 \<and>
   length (pages (loadPages [Str ''a'', Str ''''] (new_book False False))) = 1 \<and>
   map pageNumber (leaves (elems (loadPages [Str ''a'', Str ''''] (new_book False False)) !
     (pages (loadPages [Str ''a'', Str ''''] (new_book False False)) ! 0))) = [0]"
  by code_simp

text \<open>
  Claim C6, amended: for every content sequence of length \<open>N \<ge> 1\<close>, \<^verbatim>\<open>loadPages\<close> produces
  exactly \<open>ceil(N/2)\<close> spreads; spread \<open>k\<close> has index \<open>k\<close> and holds the page of leaf \<open>2k\<close> on
  the left and, when leaf \<open>2k+1\<close> exists and its content is truthy, the page of leaf
  \<open>2k+1\<close> on the right, and no other page; each page holds the content of its leaf, unless
  that content is a DOM element given again for a later leaf, which then holds it; and the
  last spread holds a single leaf if and only if \<open>N\<close> is odd or the last content is falsy
  (an empty string).
\<close>

theorem loadPages_pairs:
  assumes "1 \<le> length cs"
  shows "length (pages (loadPages cs s)) = (length cs + 1) div 2 \<and>
    (\<forall>k < length (pages (loadPages cs s)).
       index (elems (loadPages cs s) ! (pages (loadPages cs s) ! k)) = k \<and>
       map pageNumber (leaves (elems (loadPages cs s) ! (pages (loadPages cs s) ! k))) =
         (if 2 * k + 1 < length cs \<and> truthy (cs ! (2 * k + 1)) then [2 * k, 2 * k + 1]
          else [2 * k]) \<and>
       map pageSide (leaves (elems (loadPages cs s) ! (pages (loadPages cs s) ! k))) =
         (if 2 * k + 1 < length cs \<and> truthy (cs ! (2 * k + 1)) then [LeftSide, RightSide]
          else [LeftSide]) \<and>
       map inner (leaves (elems (loadPages cs s) ! (pages (loadPages cs s) ! k))) =
         (if 2 * k + 1 < length cs \<and> truthy (cs ! (2 * k + 1))
          then [shown cs (2 * k), shown cs (2 * k + 1)]
          else [shown cs (2 * k)])) \<and>
    (length (leaves (elems (loadPages cs s) ! last (pages (loadPages cs s)))) = 1
       \<longleftrightarrow> odd (length cs) \<or> \<not> truthy (last cs))"
proof -
  let ?s = "loadPages cs s" and ?m = "(length cs + 1) div 2"
  let ?right = "\<lambda>k. 2 * k + 1 < length cs \<and> truthy (cs ! (2 * k + 1))"
  have len: "length (pages ?s) = ?m"
    by (simp add: loadPages_eq)
  have nth: "elems ?s ! (pages ?s ! k) = settle ?m (currentPage s div 2) k (built cs (2 * k))"
    if "k < length (pages ?s)" for k
    using that len by (simp add: loadPages_nth)
  have j: "2 * k < length cs" if "k < length (pages ?s)" for k
    using that len by arith
  have e1: "index (elems ?s ! (pages ?s ! k)) = k" if "k < length (pages ?s)" for k
    unfolding nth [OF that] by (simp add: built_def new_spread_def)
  have e2: "map pageNumber (leaves (elems ?s ! (pages ?s ! k))) =
         (if ?right k then [2 * k, 2 * k + 1] else [2 * k])" if "k < length (pages ?s)" for k
    unfolding nth [OF that] using built_leaves(1) [OF j [OF that]] by simp
  have e3: "map pageSide (leaves (elems ?s ! (pages ?s ! k))) =
         (if ?right k then [LeftSide, RightSide] else [LeftSide])" if "k < length (pages ?s)" for k
    unfolding nth [OF that] using built_leaves(2) [OF j [OF that]] by simp
  have e4: "map inner (leaves (elems ?s ! (pages ?s ! k))) =
         (if ?right k then [shown cs (2 * k), shown cs (2 * k + 1)] else [shown cs (2 * k)])"
    if "k < length (pages ?s)" for k
    unfolding nth [OF that] using built_leaves(3) [OF j [OF that]] by simp
  have m: "0 < ?m" using assms by arith
  then have ne: "pages ?s \<noteq> []" using len by auto
  have l: "last (pages ?s) = pages ?s ! (?m - 1)"
    using ne len by (simp add: last_conv_nth)
  have lk: "?m - 1 < length (pages ?s)" using m len by simp
  have csne: "cs \<noteq> []" using assms by auto
  have "length (map pageNumber (leaves (elems ?s ! last (pages ?s)))) =
          (if ?right (?m - 1) then 2 else 1)"
    unfolding l e2 [OF lk] by simp
  then have one: "length (leaves (elems ?s ! last (pages ?s))) = 1 \<longleftrightarrow> \<not> ?right (?m - 1)"
    by (simp split: if_splits)
  have e5: "length (leaves (elems ?s ! last (pages ?s))) = 1 \<longleftrightarrow>
              odd (length cs) \<or> \<not> truthy (last cs)"
  proof (cases "odd (length cs)")
    case True
    then have "\<not> 2 * (?m - 1) + 1 < length cs" by presburger
    with one True show ?thesis by simp
  next
    case False
    with assms have i: "2 * (?m - 1) + 1 = length cs - 1" "2 * (?m - 1) + 1 < length cs"
      by presburger+
    have "last cs = cs ! (length cs - 1)" using csne by (simp add: last_conv_nth)
    with one False i show ?thesis by simp
  qed
  show ?thesis
  proof (intro conjI allI impI)
    show "length (pages ?s) = ?m" by (rule len)
  next
    fix k assume "k < length (pages ?s)"
    then show "index (elems ?s ! (pages ?s ! k)) = k" by (rule e1)
  next
    fix k assume "k < length (pages ?s)"
    then show "map pageNumber (leaves (elems ?s ! (pages ?s ! k))) =
         (if ?right k then [2 * k, 2 * k + 1] else [2 * k])" by (rule e2)
  next
    fix k assume "k < length (pages ?s)"
    then show "map pageSide (leaves (elems ?s ! (pages ?s ! k))) =
         (if ?right k then [LeftSide, RightSide] else [LeftSide])" by (rule e3)
  next
    fix k assume "k < length (pages ?s)"
    then show "map inner (leaves (elems ?s ! (pages ?s ! k))) =
         (if ?right k then [shown cs (2 * k), shown cs (2 * k + 1)] else [shown cs (2 * k)])"
      by (rule e4)
  next
    show "length (leaves (elems ?s ! last (pages ?s))) = 1 \<longleftrightarrow>
            odd (length cs) \<or> \<not> truthy (last cs)" by (rule e5)
  qed
qed

theorem loadPages_pairs_witness:
  "(1::nat) \<le> length [Elem 7, Elem 7, Str ''c''] \<and>
   length (pages (loadPages [Elem 7, Elem 7, Str ''c''] (new_book False False))) = 2 \<and>
   (1::nat) < length (pages (loadPages [Elem 7, Elem 7, Str ''c''] (new_book False False))) \<and>
   map pageNumber
     (leaves (elems (loadPages [Elem 7, Elem 7, Str ''c''] (new_book False False)) !
       (pages (loadPages [Elem 7, Elem 7, Str ''c''] (new_book False False)) ! 0))) = [0, 1] \<and>
   map inner
     (leaves (elems (loadPages [Elem 7, Elem 7, Str ''c''] (new_book False False)) !
       (pages (loadPages [Elem 7, Elem 7, Str ''c''] (new_book False False)) ! 0))) =
     [None, Some (Elem 7)] \<and>
   map inner
     (leaves (elems (loadPages [Elem 7, Elem 7, Str ''c''] (new_book False False)) !
       (pages (loadPages [Elem 7, Elem 7, Str ''c''] (new_book False False)) ! 1))) =
     [Some (Str ''c'')]"
proof -
  let ?cs = "[Elem 7, Elem 7, Str ''c'']"
  let ?s = "loadPages ?cs (new_book False False)"
  have h: "(1::nat) \<le> length ?cs" by simp
  have k1: "(1::nat) < length (pages ?s)" by code_simp
  then have k0: "(0::nat) < length (pages ?s)" by arith
  have sh: "shown ?cs 0 = None" "shown ?cs (Suc 0) = Some (Elem 7)"
    "shown ?cs 2 = Some (Str ''c'')"
    by (simp_all add: shown_def)
  note inst = loadPages_pairs [OF h, of "new_book False False"]
  from inst have n: "length (pages ?s) = 2" by simp
  from inst have each: "\<forall>k < length (pages ?s).
       index (elems ?s ! (pages ?s ! k)) = k \<and>
       map pageNumber (leaves (elems ?s ! (pages ?s ! k))) =
         (if 2 * k + 1 < length ?cs \<and> truthy (?cs ! (2 * k + 1)) then [2 * k, 2 * k + 1]
          else [2 * k]) \<and>
       map pageSide (leaves (elems ?s ! (pages ?s ! k))) =
         (if 2 * k + 1 < length ?cs \<and> truthy (?cs ! (2 * k + 1)) then [LeftSide, RightSide]
          else [LeftSide]) \<and>
       map inner (leaves (elems ?s ! (pages ?s ! k))) =
         (if 2 * k + 1 < length ?cs \<and> truthy (?cs ! (2 * k + 1))
          then [shown ?cs (2 * k), shown ?cs (2 * k + 1)]
          else [shown ?cs (2 * k)])"
    by (rule conjunct1 [OF conjunct2])
  from each [rule_format, OF k0] have a: "map pageNumber (leaves (elems ?s ! (pages ?s ! 0))) = [0, 1]"
    and b: "map inner (leaves (elems ?s ! (pages ?s ! 0))) = [None, Some (Elem 7)]"
    by (simp_all add: sh)
  from each [rule_format, OF k1] have c: "map inner (leaves (elems ?s ! (pages ?s ! 1))) = [Some (Str ''c'')]"
    by (simp add: sh)
  from h n k1 a b c show ?thesis by (intro conjI)
qed

section \<open>Stacking after settling\<close>

text \<open>
  Settling stacks the turned spreads in the order of their indices and the spreads still to
  come in the reverse order, whatever the size of the book.
\<close>

lemma zIndex_settle:
  "zIndex (settle n cur k sp) =
     (if int k = cur then 10 else if int k < cur then int k else int n - int k)"
  by (simp add: settle_def)

lemma settled_style:
  assumes "book_inv s" and "k < length (pages s)"
  shows "elems (updatePageVisibility s) ! (pages s ! k) =
           settle (length (pages s)) (currentPage s div 2) k (elems s ! (pages s ! k))"
proof -
  from assms(1) have d: "distinct (pages s)" and v: "\<forall>r \<in> set (pages s). r < length (elems s)"
    by (simp_all add: book_inv_def)
  from settle_each_nth [OF d v assms(2), of "length (pages s)" "currentPage s div 2" 0]
  show ?thesis by (simp add: updatePageVisibility_def)
qed

lemma stacking_order:
  assumes "book_inv s" and "j < k" and "k < length (pages s)"
  shows "int k < currentPage s div 2 \<Longrightarrow>
           zIndex (elems (updatePageVisibility s) ! (pages s ! j)) <
           zIndex (elems (updatePageVisibility s) ! (pages s ! k))"
    and "currentPage s div 2 < int j \<Longrightarrow>
           zIndex (elems (updatePageVisibility s) ! (pages s ! k)) <
           zIndex (elems (updatePageVisibility s) ! (pages s ! j))"
proof -
  from assms(2,3) have j: "j < length (pages s)" by simp
  show "int k < currentPage s div 2 \<Longrightarrow>
           zIndex (elems (updatePageVisibility s) ! (pages s ! j)) <
           zIndex (elems (updatePageVisibility s) ! (pages s ! k))"
    using assms(2) by (simp add: settled_style [OF assms(1) j] settled_style [OF assms(1,3)] zIndex_settle)
  show "currentPage s div 2 < int j \<Longrightarrow>
           zIndex (elems (updatePageVisibility s) ! (pages s ! k)) <
           zIndex (elems (updatePageVisibility s) ! (pages s ! j))"
    using assms(2) by (simp add: settled_style [OF assms(1) j] settled_style [OF assms(1,3)] zIndex_settle)
qed

text \<open>
  Claim C5 says that after settling the current spread has the highest stacking priority.
  \<^verbatim>\<open>_updatePageVisibility\<close> gives the current spread the fixed z-index 10 and a spread
  after it the z-index \<^verbatim>\<open>pages.length - index\<close>: in a book of 24 leaves (12 spreads) just
  loaded, the current spread 0 has z-index 10 and spread 1 has z-index 11.
\<close>

theorem settle_stacking_large_book:
  "currentPage (loadPages (replicate 24 (Str ''p'')) (new_book False False)) div 2 = 0 \<and>
   zIndex (elems (loadPages (replicate 24 (Str ''p'')) (new_book False False)) !
           (pages (loadPages (replicate 24 (Str ''p'')) (new_book False False)) ! 0)) = 10 \<and>
   zIndex (elems (loadPages (replicate 24 (Str ''p'')) (new_book False False)) !
           (pages (loadPages (replicate 24 (Str ''p'')) (new_book False False)) ! 1)) = 11"
  by code_simp

section \<open>Notifications of a discrete turn\<close>

text \<open>
  Claim C4 says that the turn-started notification carries the leaf index before the
  turn, in either direction. \<^verbatim>\<open>prevPage\<close> subtracts 2 from \<^verbatim>\<open>currentPage\<close> before it calls
  \<^verbatim>\<open>onFlipStart\<close>: from leaf 2 it reports a start at leaf 0. The same backward turn made
  by a drag reports its start at leaf 2, as \<^verbatim>\<open>nextPage\<close> does for a forward turn.
\<close>

theorem prevPage_start_notification:
  "currentPage (snd (goToPage 2
      (loadPages [Str ''a'', Str ''b'', Str ''c'', Str ''d''] (new_book True True)))) = 2 \<and>
   fst (prevPage (snd (goToPage 2
      (loadPages [Str ''a'', Str ''b'', Str ''c'', Str ''d''] (new_book True True))))) = True \<and>
   emitted (snd (prevPage (snd (goToPage 2
      (loadPages [Str ''a'', Str ''b'', Str ''c'', Str ''d''] (new_book True True)))))) =
     [FlipEnd 2 (Some Goto), FlipStart 0 (Some Prev), FlipEnd 0 (Some Prev)] \<and>
   emitted (gesture (10, 50, 100, 100) [(70, 50, 100, 100)] (snd (goToPage 2
      (loadPages [Str ''a'', Str ''b'', Str ''c'', Str ''d''] (new_book True True))))) =
     [FlipEnd 2 (Some Goto), FlipStart 2 (Some Prev), FlipEnd 0 None] \<and>
   emitted (snd (nextPage
      (loadPages [Str ''a'', Str ''b'', Str ''c'', Str ''d''] (new_book True True)))) =
     [FlipStart 0 (Some Next), FlipEnd 2 (Some Next)]"
  by code_simp

section \<open>Discrete turns\<close>

lemma page_at_cong [simp]:
  "page_at (fireFlipStart p d s) i = page_at s i"
  "page_at (fireFlipEnd p d s) i = page_at s i"
  "page_at (style r f s) i = page_at s i"
  "page_at (updatePageVisibility s) i = page_at s i"
  "page_at (s\<lparr>isFlipping := b\<rparr>) i = page_at s i"
  "page_at (s\<lparr>currentPage := c\<rparr>) i = page_at s i"
  by (simp_all add: page_at_def)

lemma page_exists:
  assumes "book_inv s" and "0 \<le> c" and "c < totalPages s"
  shows "\<exists>r. page_at s (c div 2) = Some r"
proof -
  from assms(1) have "int (length (pages s)) = (totalPages s + 1) div 2"
    by (simp add: book_inv_def)
  with assms(2,3) have "0 \<le> c div 2 \<and> c div 2 < int (length (pages s))" by presburger
  then show ?thesis by (simp add: page_at_def)
qed

lemma nextPage_rejected:
  "isFlipping s \<or> currentPage s \<ge> totalPages s - 2 \<Longrightarrow> nextPage s = (False, s)"
  by (auto simp add: nextPage_def nextPage_begin_def)

lemma nextPage_accepted:
  assumes "\<not> isFlipping s" and "currentPage s < totalPages s - 2"
  shows "fst (nextPage s) = True"
    and "currentPage (snd (nextPage s)) =
           (if page_at s (currentPage s div 2) = None then currentPage s else currentPage s + 2)"
    and "isFlipping (snd (nextPage s)) = False"
    and "isDragging (snd (nextPage s)) = isDragging s"
    and "totalPages (snd (nextPage s)) = totalPages s"
    and "pages (snd (nextPage s)) = pages s"
  using assms
  by (simp_all add: nextPage_def nextPage_begin_def nextPage_resume_def animateFlip_def Let_def
      split: option.splits)

lemma prevPage_rejected:
  "isFlipping s \<or> currentPage s \<le> 0 \<Longrightarrow> prevPage s = (False, s)"
  by (auto simp add: prevPage_def prevPage_begin_def)

lemma prevPage_accepted:
  assumes "\<not> isFlipping s" and "0 < currentPage s"
  shows "fst (prevPage s) = True"
    and "currentPage (snd (prevPage s)) = currentPage s - 2"
    and "isFlipping (snd (prevPage s)) = False"
    and "isDragging (snd (prevPage s)) = isDragging s"
    and "totalPages (snd (prevPage s)) = totalPages s"
    and "pages (snd (prevPage s)) = pages s"
  using assms
  by (simp_all add: prevPage_def prevPage_begin_def prevPage_resume_def animateFlip_def Let_def
      split: option.splits)

lemma nextPage_True: "nextPage s = (True, s1) \<Longrightarrow> \<not> isFlipping s \<and> currentPage s < totalPages s - 2"
  using nextPage_rejected [of s] by fastforce

lemma prevPage_True: "prevPage s = (True, s1) \<Longrightarrow> \<not> isFlipping s \<and> 0 < currentPage s"
  using prevPage_rejected [of s] by fastforce

lemma reachable_nextPage: "reachable s \<Longrightarrow> reachable (snd (nextPage s))"
proof -
  assume r: "reachable s"
  obtain o' s' where b: "nextPage_begin s = (o', s')" by (cases "nextPage_begin s")
  from r have r': "reachable s'" using reachable.next_called [of s] b by simp
  show ?thesis
  proof (cases o')
    case (Returned x)
    with b r' show ?thesis by (simp add: nextPage_def)
  next
    case Awaiting
    with b reachable.next_resumed [OF r'] show ?thesis by (simp add: nextPage_def)
  qed
qed

lemma reachable_prevPage: "reachable s \<Longrightarrow> reachable (snd (prevPage s))"
proof -
  assume r: "reachable s"
  obtain o' s' where b: "prevPage_begin s = (o', s')" by (cases "prevPage_begin s")
  from r have r': "reachable s'" using reachable.prev_called [of s] b by simp
  show ?thesis
  proof (cases o')
    case (Returned x)
    with b r' show ?thesis by (simp add: prevPage_def)
  next
    case Awaiting
    with b reachable.prev_resumed [OF r'] show ?thesis by (simp add: prevPage_def)
  qed
qed

text \<open>
  Claim C7: from every state the engine can be in, if \<^verbatim>\<open>nextPage\<close> and then
  \<^verbatim>\<open>prevPage\<close> are both accepted (each followed to its completion), \<^verbatim>\<open>currentPage\<close>, and
  with it the current spread index, is back at its original value; and likewise for
  \<^verbatim>\<open>prevPage\<close> followed by \<^verbatim>\<open>nextPage\<close>.
\<close>

theorem advance_round_trip:
  assumes "reachable s"
  shows "(nextPage s = (True, s1) \<and> prevPage s1 = (True, s2) \<longrightarrow> currentPage s2 = currentPage s) \<and>
         (prevPage s = (True, t1) \<and> nextPage t1 = (True, t2) \<longrightarrow> currentPage t2 = currentPage s)"
proof -
  have inv: "book_inv s" by (rule reachable_inv [OF assms])
  have fwd: "currentPage s2 = currentPage s" if n: "nextPage s = (True, s1)" and p: "prevPage s1 = (True, s2)"
  proof -
    from nextPage_True [OF n] have a: "\<not> isFlipping s" "currentPage s < totalPages s - 2" by simp_all
    from n have s1: "s1 = snd (nextPage s)" by simp
    from prevPage_True [OF p] have b: "\<not> isFlipping s1" "0 < currentPage s1" by simp_all
    from p have s2: "s2 = snd (prevPage s1)" by simp
    have c1: "currentPage s1 =
        (if page_at s (currentPage s div 2) = None then currentPage s else currentPage s + 2)"
      unfolding s1 by (rule nextPage_accepted(2) [OF a])
    have "page_at s (currentPage s div 2) \<noteq> None"
    proof
      assume none: "page_at s (currentPage s div 2) = None"
      with c1 b(2) have "0 \<le> currentPage s" by simp
      with page_exists [OF inv, of "currentPage s"] a(2) none show False by auto
    qed
    with c1 have "currentPage s1 = currentPage s + 2" by simp
    with prevPage_accepted(2) [OF b] s2 show ?thesis by simp
  qed
  have bwd: "currentPage t2 = currentPage s" if p: "prevPage s = (True, t1)" and n: "nextPage t1 = (True, t2)"
  proof -
    from prevPage_True [OF p] have a: "\<not> isFlipping s" "0 < currentPage s" by simp_all
    from p have t1: "t1 = snd (prevPage s)" by simp
    from nextPage_True [OF n] have b: "\<not> isFlipping t1" "currentPage t1 < totalPages t1 - 2" by simp_all
    from n have t2: "t2 = snd (nextPage t1)" by simp
    have c1: "currentPage t1 = currentPage s - 2"
      unfolding t1 by (rule prevPage_accepted(2) [OF a])
    have inv1: "book_inv t1" unfolding t1 by (rule reachable_inv [OF reachable_prevPage [OF assms]])
    from inv a(2) have "2 \<le> currentPage s" by (auto simp add: book_inv_def)
    with c1 have nn: "0 \<le> currentPage t1" by simp
    from page_exists [OF inv1 nn] b(2) have "page_at t1 (currentPage t1 div 2) \<noteq> None" by auto
    with nextPage_accepted(2) [OF b] t2 c1 show ?thesis by simp
  qed
  from fwd bwd show ?thesis by blast
qed

theorem advance_round_trip_witness:
  "reachable (snd (goToPage 2 (loadPages [Str ''a'', Str ''b'', Str ''c'', Str ''d'', Str ''e''] (new_book False False)))) \<and>
   fst (nextPage (snd (goToPage 2 (loadPages [Str ''a'', Str ''b'', Str ''c'', Str ''d'', Str ''e''] (new_book False False))))) = True \<and>
   fst (prevPage (snd (nextPage (snd (goToPage 2 (loadPages [Str ''a'', Str ''b'', Str ''c'', Str ''d'', Str ''e''] (new_book False False))))))) = True \<and>
   currentPage (snd (prevPage (snd (nextPage (snd (goToPage 2 (loadPages [Str ''a'', Str ''b'', Str ''c'', Str ''d'', Str ''e''] (new_book False False)))))))) =
   currentPage (snd (goToPage 2 (loadPages [Str ''a'', Str ''b'', Str ''c'', Str ''d'', Str ''e''] (new_book False False)))) \<and>
   fst (prevPage (snd (goToPage 2 (loadPages [Str ''a'', Str ''b'', Str ''c'', Str ''d'', Str ''e''] (new_book False False))))) = True \<and>
   fst (nextPage (snd (prevPage (snd (goToPage 2 (loadPages [Str ''a'', Str ''b'', Str ''c'', Str ''d'', Str ''e''] (new_book False False))))))) = True \<and>
   currentPage (snd (nextPage (snd (prevPage (snd (goToPage 2 (loadPages [Str ''a'', Str ''b'', Str ''c'', Str ''d'', Str ''e''] (new_book False False)))))))) =
   currentPage (snd (goToPage 2 (loadPages [Str ''a'', Str ''b'', Str ''c'', Str ''d'', Str ''e''] (new_book False False))))"
proof -
  let ?s = "snd (goToPage 2 (loadPages [Str ''a'', Str ''b'', Str ''c'', Str ''d'', Str ''e''] (new_book False False)))"
  have r: "reachable ?s"
    by (rule reachable.goto_called [OF reachable.loaded [OF reachable.constructed]])
  have n: "fst (nextPage ?s) = True" by code_simp
  have np: "fst (prevPage (snd (nextPage ?s))) = True" by code_simp
  have p: "fst (prevPage ?s) = True" by code_simp
  have pn: "fst (nextPage (snd (prevPage ?s))) = True" by code_simp
  have n': "nextPage ?s = (True, snd (nextPage ?s))" using n by (metis prod.collapse)
  have np': "prevPage (snd (nextPage ?s)) = (True, snd (prevPage (snd (nextPage ?s))))"
    using np by (metis prod.collapse)
  have p': "prevPage ?s = (True, snd (prevPage ?s))" using p by (metis prod.collapse)
  have pn': "nextPage (snd (prevPage ?s)) = (True, snd (nextPage (snd (prevPage ?s))))"
    using pn by (metis prod.collapse)
  from advance_round_trip [OF r, of "snd (nextPage ?s)" "snd (prevPage (snd (nextPage ?s)))"
      "snd (prevPage ?s)" "snd (nextPage (snd (prevPage ?s)))"] n' np' p' pn' r n np p pn
  show ?thesis by simp
qed

section \<open>The reading position over sequences of operations\<close>

lemma settled_new: "settled (new_book a b)"
  by (simp add: settled_def new_book_def)

lemma settled_loadPages: "settled s \<Longrightarrow> settled (loadPages cs s)"
  by (simp add: settled_def loadPages_eq)

lemma settled_nextPage: "settled s \<Longrightarrow> settled (snd (nextPage s))"
proof (cases "currentPage s < totalPages s - 2")
  case False
  assume "settled s"
  with False nextPage_rejected [of s] show ?thesis by simp
next
  case True
  assume s: "settled s"
  then have nf: "\<not> isFlipping s" by (simp add: settled_def)
  from s nextPage_accepted(2-4) [OF nf True] show ?thesis
    by (simp add: settled_def)
qed

lemma settled_prevPage: "settled s \<Longrightarrow> settled (snd (prevPage s))"
proof (cases "0 < currentPage s")
  case False
  assume "settled s"
  with False prevPage_rejected [of s] show ?thesis by simp
next
  case True
  assume s: "settled s"
  then have nf: "\<not> isFlipping s" by (simp add: settled_def)
  from s True have "2 \<le> currentPage s" by (auto simp add: settled_def)
  with s prevPage_accepted(2-4) [OF nf True] show ?thesis
    by (simp add: settled_def)
qed

lemma settled_goToPage: "settled s \<Longrightarrow> settled (snd (goToPage p s))"
  by (simp add: settled_def goToPage_def Let_def)

lemma held_down: "settled s \<Longrightarrow> held (handleMouseDown x y w h s)"
  by (simp add: settled_def held_def handleMouseDown_def startDrag_def grab_def Let_def
      getFlippingPage_def split: option.splits)

lemma held_move: "held s \<Longrightarrow> held (handleMouseMove x y w h s)"
  by (simp add: held_def handleMouseMove_def updateDrag_def Let_def)

lemma held_moves: "held s \<Longrightarrow> held (moves ms s)"
  by (induction ms s rule: moves.induct) (simp_all add: held_move)

lemma settled_up: 
  assumes "held s" 
  shows "settled (finish (handleMouseUp s))"
proof (cases "isDragging s")
  case False
  with assms show ?thesis by (simp add: held_def settled_def handleMouseUp_def finish_def)
next
  case True
  with assms obtain r where r: "dragPage s = Some r" by (auto simp add: held_def)
  from assms True have d: "dragDirection s = Some Next \<or> dragDirection s = Some Prev \<and> 2 \<le> currentPage s"
    by (auto simp add: held_def)
  from assms have c: "0 \<le> currentPage s" "even (currentPage s)" "\<not> isFlipping s"
    by (simp_all add: held_def)
  show ?thesis
  proof (cases "js_gt (dragProgress s) double_0_3")
    case False
    with True r c show ?thesis
      by (simp add: settled_def handleMouseUp_def endDrag_def finish_def cancelFlip_begin_def
          cancelFlip_resume_def cleanupDragPage_def animateToAngle_def Let_def)
  next
    case yes: True
    with True r c d show ?thesis
      by (auto simp add: settled_def handleMouseUp_def endDrag_def finish_def completeFlip_begin_def
          completeFlip_resume_def cleanupDragPage_def animateToAngle_def Let_def)
  qed
qed

lemma settled_gesture: "settled s \<Longrightarrow> settled (gesture d ms s)"
  by (cases d) (simp add: gesture_def settled_up held_moves held_down)

lemma settled_run_op: "settled s \<Longrightarrow> settled (run_op c s)"
  by (cases c) (simp_all add: settled_loadPages settled_nextPage settled_prevPage
      settled_goToPage settled_gesture)

lemma settled_run_ops: "settled s \<Longrightarrow> settled (run_ops cs s)"
  by (induction cs arbitrary: s) (simp_all add: settled_run_op)

text \<open>
  When the operations do not overlap, each being run to its completion before the next
  begins (\<^verbatim>\<open>loadPages\<close>; \<^verbatim>\<open>nextPage\<close>, \<^verbatim>\<open>prevPage\<close> and \<^verbatim>\<open>goToPage\<close> calls, accepted or
  rejected; drag gestures from pointer-down to the end of the settling animation, committed
  or reverted), \<^verbatim>\<open>currentPage\<close> stays a non-negative even integer. The engine does not
  enforce that condition.
\<close>

lemma sequential_position:
  "0 \<le> currentPage (run_ops ops (new_book startCb endCb)) \<and>
   even (currentPage (run_ops ops (new_book startCb endCb))) \<and>
   currentPage (run_ops ops (new_book startCb endCb)) div 2 * 2 =
     currentPage (run_ops ops (new_book startCb endCb))"
proof -
  have "settled (run_ops ops (new_book startCb endCb))"
    by (rule settled_run_ops [OF settled_new])
  then show ?thesis by (auto simp add: settled_def)
qed

lemma reachable_finish: "reachable s \<Longrightarrow> reachable (finish (handleMouseUp s))"
proof -
  assume r: "reachable s"
  then have u: "reachable (snd (handleMouseUp s))" by (rule reachable.pointer_up)
  show ?thesis
  proof (cases "fst (handleMouseUp s)")
    case None
    with u show ?thesis by (simp add: finish_def)
  next
    case (Some k)
    with reachable.drag_settled [OF u, of k] show ?thesis by (simp add: finish_def)
  qed
qed

text \<open>
  Claim C10 says that \<^verbatim>\<open>currentPage\<close> is a non-negative even integer after any sequence of
  \<^verbatim>\<open>loadPages\<close>, navigation calls and drag gestures on a new engine. Nothing keeps a
  request from arriving while a drag is held, since the guards test \<^verbatim>\<open>isFlipping\<close> only.
  On a book of four leaves: \<^verbatim>\<open>goToPage(2)\<close>, a pointer-down at the left edge (a backward
  drag begins), \<^verbatim>\<open>goToPage(0)\<close>, a pointer-move beyond the threshold and the release. The
  drag commits, \<^verbatim>\<open>_completeFlip\<close> subtracts 2, and the engine is idle at
  \<^verbatim>\<open>currentPage = -2\<close>.
\<close>

theorem position_negative_after_overlap:
  "reachable (finish (handleMouseUp (handleMouseMove 70 50 100 100 (snd (goToPage 0
      (handleMouseDown 10 50 100 100 (snd (goToPage 2
         (loadPages [Str ''a'', Str ''b'', Str ''c'', Str ''d''] (new_book False False)))))))))) \<and>
   currentPage (finish (handleMouseUp (handleMouseMove 70 50 100 100 (snd (goToPage 0
      (handleMouseDown 10 50 100 100 (snd (goToPage 2
         (loadPages [Str ''a'', Str ''b'', Str ''c'', Str ''d''] (new_book False False)))))))))) = - 2 \<and>
   \<not> isFlipping (finish (handleMouseUp (handleMouseMove 70 50 100 100 (snd (goToPage 0
      (handleMouseDown 10 50 100 100 (snd (goToPage 2
         (loadPages [Str ''a'', Str ''b'', Str ''c'', Str ''d''] (new_book False False)))))))))) \<and>
   \<not> isDragging (finish (handleMouseUp (handleMouseMove 70 50 100 100 (snd (goToPage 0
      (handleMouseDown 10 50 100 100 (snd (goToPage 2
         (loadPages [Str ''a'', Str ''b'', Str ''c'', Str ''d''] (new_book False False))))))))))"
proof -
  let ?s = "finish (handleMouseUp (handleMouseMove 70 50 100 100 (snd (goToPage 0
      (handleMouseDown 10 50 100 100 (snd (goToPage 2
         (loadPages [Str ''a'', Str ''b'', Str ''c'', Str ''d''] (new_book False False)))))))))"
  have r: "reachable ?s"
    by (intro reachable_finish reachable.pointer_move reachable.goto_called
        reachable.pointer_down reachable.loaded reachable.constructed)
  have c: "currentPage ?s = - 2" by code_simp
  have f: "\<not> isFlipping ?s" by code_simp
  have d: "\<not> isDragging ?s" by code_simp
  from r c f d show ?thesis by (intro conjI)
qed

section \<open>Releasing a drag\<close>

lemma rotation_after_settle:
  assumes "distinct (pages s)" and "\<forall>q \<in> set (pages s). q < length (elems s)"
    and "page_at s i = Some r"
  shows "rotation (elems (updatePageVisibility s) ! r) =
           (if i < currentPage s div 2 then Fin (- 180) else Fin 0)"
proof -
  from assms(3) have i: "0 \<le> i" "nat i < length (pages s)" and r: "r = pages s ! nat i"
    by (auto simp add: page_at_def split: if_splits)
  from settle_each_nth [OF assms(1,2) i(2), of "length (pages s)" "currentPage s div 2" 0] r i(1)
  show ?thesis
    by (simp add: updatePageVisibility_def rotation_settle)
qed

lemma isDragging_move: "isDragging (handleMouseMove x y w h s) = isDragging s"
  by (simp add: handleMouseMove_def updateDrag_def Let_def)

lemma isDragging_moves: "isDragging (moves ms s) = isDragging s"
  by (induction ms s rule: moves.induct) (simp_all add: isDragging_move)

lemma grabbed_down:
  assumes "\<not> isFlipping s0" and "\<not> isDragging s0" and "isDragging (handleMouseDown x y w h s0)"
  shows "\<exists>d r. grabbed s0 d r (handleMouseDown x y w h s0)"
  using assms
  by (auto simp add: grabbed_def handleMouseDown_def startDrag_def grab_def getFlippingPage_def
      Let_def split: if_splits option.splits)

lemma grabbed_move: "grabbed s0 d r s \<Longrightarrow> grabbed s0 d r (handleMouseMove x y w h s)"
  by (simp add: grabbed_def handleMouseMove_def updateDrag_def Let_def)

lemma grabbed_moves: "grabbed s0 d r s \<Longrightarrow> grabbed s0 d r (moves ms s)"
  by (induction ms s rule: moves.induct) (simp_all add: grabbed_move)

lemma grabbed_dir: "grabbed s0 d r s \<Longrightarrow> d = Next \<or> d = Prev"
  by (auto simp add: grabbed_def)


lemma released_commit:
  assumes "isDragging s" and "dragPage s = Some r" and "js_gt (dragProgress s) double_0_3"
  shows "finish (handleMouseUp s) =
           completeFlip_resume
             ((animateToAngle r (if dragDirection s = Some Next then - 180 else 0)
                 (fireFlipStart (currentPage s) (dragDirection s) (s\<lparr>isFlipping := True\<rparr>)))
              \<lparr>isDragging := False\<rparr>)"
  using assms
  by (simp add: finish_def handleMouseUp_def endDrag_def completeFlip_begin_def Let_def)

lemma released_revert:
  assumes "isDragging s" and "dragPage s = Some r" and "\<not> js_gt (dragProgress s) double_0_3"
  shows "finish (handleMouseUp s) =
           cancelFlip_resume
             ((animateToAngle r (if dragDirection s = Some Next then 0 else - 180) s)
              \<lparr>isDragging := False\<rparr>)"
  using assms
  by (simp add: finish_def handleMouseUp_def endDrag_def cancelFlip_begin_def Let_def)

lemma animateToAngle_fields [simp]:
  "currentPage (animateToAngle r a s) = currentPage s"
  "totalPages (animateToAngle r a s) = totalPages s"
  "pages (animateToAngle r a s) = pages s"
  "isFlipping (animateToAngle r a s) = isFlipping s"
  "isDragging (animateToAngle r a s) = isDragging s"
  "dragPage (animateToAngle r a s) = dragPage s"
  "dragDirection (animateToAngle r a s) = dragDirection s"
  "dragProgress (animateToAngle r a s) = dragProgress s"
  "emitted (animateToAngle r a s) = emitted s"
  "onFlipStart (animateToAngle r a s) = onFlipStart s"
  "onFlipEnd (animateToAngle r a s) = onFlipEnd s"
  "length (elems (animateToAngle r a s)) = length (elems s)"
  by (simp_all add: animateToAngle_def)

lemma cleanupDragPage_fields [simp]:
  "currentPage (cleanupDragPage s) = currentPage s"
  "totalPages (cleanupDragPage s) = totalPages s"
  "pages (cleanupDragPage s) = pages s"
  "isFlipping (cleanupDragPage s) = isFlipping s"
  "isDragging (cleanupDragPage s) = isDragging s"
  "dragPage (cleanupDragPage s) = None"
  "dragDirection (cleanupDragPage s) = None"
  "emitted (cleanupDragPage s) = emitted s"
  "onFlipStart (cleanupDragPage s) = onFlipStart s"
  "onFlipEnd (cleanupDragPage s) = onFlipEnd s"
  "elems (cleanupDragPage s) = elems s"
  by (simp_all add: cleanupDragPage_def)

lemma emitted_fireFlipStart:
  "emitted (fireFlipStart p d s) = emitted s @ (if onFlipStart s then [FlipStart p d] else [])"
  by (simp add: fireFlipStart_def)

lemma emitted_fireFlipEnd:
  "emitted (fireFlipEnd p d s) = emitted s @ (if onFlipEnd s then [FlipEnd p d] else [])"
  by (simp add: fireFlipEnd_def)

lemma commit_result:
  assumes g: "grabbed s0 d r s" and inv: "book_inv s0" and yes: "js_gt (dragProgress s) double_0_3"
  shows "currentPage (finish (handleMouseUp s)) =
           (if d = Next then currentPage s0 + 2 else currentPage s0 - 2)"
    and "rotation (elems (finish (handleMouseUp s)) ! r) = (if d = Next then Fin (- 180) else Fin 0)"
    and "emitted (finish (handleMouseUp s)) =
           emitted s0 @ (if onFlipStart s0 then [FlipStart (currentPage s0) (Some d)] else []) @
           (if onFlipEnd s0
            then [FlipEnd (if d = Next then currentPage s0 + 2 else currentPage s0 - 2) None]
            else [])"
    and "\<not> isFlipping (finish (handleMouseUp s))"
    and "\<not> isDragging (finish (handleMouseUp s))"
proof -
  from g have dr: "isDragging s" and dp: "dragPage s = Some r" and dd: "dragDirection s = Some d"
    and cp: "currentPage s = currentPage s0" and pg: "pages s = pages s0"
    and ln: "length (elems s) = length (elems s0)" and em: "emitted s = emitted s0"
    and cb: "onFlipStart s = onFlipStart s0" "onFlipEnd s = onFlipEnd s0"
    by (simp_all add: grabbed_def)
  from g have at: "page_at s0 (if d = Next then currentPage s0 div 2 else currentPage s0 div 2 - 1) = Some r"
    by (auto simp add: grabbed_def)
  from g have dir: "d = Next \<or> d = Prev" by (rule grabbed_dir)
  define c' where "c' = (if d = Next then currentPage s0 + 2 else currentPage s0 - 2)"
  define X where "X = (animateToAngle r (if dragDirection s = Some Next then - 180 else 0)
                 (fireFlipStart (currentPage s) (dragDirection s) (s\<lparr>isFlipping := True\<rparr>)))
              \<lparr>isDragging := False\<rparr>"
  define Y where "Y = cleanupDragPage (X\<lparr>currentPage := c'\<rparr>)"
  have fin: "finish (handleMouseUp s) = completeFlip_resume X"
    unfolding X_def by (rule released_commit [OF dr dp yes])
  have res: "completeFlip_resume X =
      fireFlipEnd c' None ((updatePageVisibility Y)\<lparr>isFlipping := False\<rparr>)"
    using dir by (auto simp add: completeFlip_resume_def Let_def Y_def c'_def X_def dd cp)
  have Ypages: "pages Y = pages s0" and Ylen: "length (elems Y) = length (elems s0)"
    and Ycp: "currentPage Y = c'"
    by (simp_all add: Y_def X_def pg ln)
  have Yem: "emitted Y = emitted s0 @ (if onFlipStart s0 then [FlipStart (currentPage s0) (Some d)] else [])"
    by (simp add: Y_def X_def emitted_fireFlipStart em cb cp dd)
  have Ycb: "onFlipEnd Y = onFlipEnd s0" by (simp add: Y_def X_def cb)
  from inv have d1: "distinct (pages Y)" and d2: "\<forall>q \<in> set (pages Y). q < length (elems Y)"
    by (simp_all add: book_inv_def Ypages Ylen)
  have Yat: "page_at Y (if d = Next then currentPage s0 div 2 else currentPage s0 div 2 - 1) = Some r"
    using at by (simp only: page_at_frame [OF Ypages])
  show "currentPage (finish (handleMouseUp s)) =
           (if d = Next then currentPage s0 + 2 else currentPage s0 - 2)"
    by (simp add: fin res Ycp) (simp add: c'_def)
  have "rotation (elems (updatePageVisibility Y) ! r) = (if d = Next then Fin (- 180) else Fin 0)"
    using rotation_after_settle [OF d1 d2 Yat] dir by (auto simp add: Ycp c'_def)
  then show "rotation (elems (finish (handleMouseUp s)) ! r) = (if d = Next then Fin (- 180) else Fin 0)"
    by (simp add: fin res)
  show "emitted (finish (handleMouseUp s)) =
           emitted s0 @ (if onFlipStart s0 then [FlipStart (currentPage s0) (Some d)] else []) @
           (if onFlipEnd s0
            then [FlipEnd (if d = Next then currentPage s0 + 2 else currentPage s0 - 2) None]
            else [])"
    by (simp add: fin res emitted_fireFlipEnd Yem Ycb c'_def)
  show "\<not> isFlipping (finish (handleMouseUp s))" by (simp add: fin res)
  have "\<not> isDragging Y" by (simp add: Y_def X_def)
  then show "\<not> isDragging (finish (handleMouseUp s))" by (simp add: fin res)
qed


lemma revert_result:
  assumes g: "grabbed s0 d r s" and inv: "book_inv s0" and no: "\<not> js_gt (dragProgress s) double_0_3"
  shows "currentPage (finish (handleMouseUp s)) = currentPage s0"
    and "rotation (elems (finish (handleMouseUp s)) ! r) = (if d = Next then Fin 0 else Fin (- 180))"
    and "emitted (finish (handleMouseUp s)) = emitted s0"
    and "\<not> isFlipping (finish (handleMouseUp s))"
    and "\<not> isDragging (finish (handleMouseUp s))"
proof -
  from g have dr: "isDragging s" and dp: "dragPage s = Some r" and dd: "dragDirection s = Some d"
    and nf: "\<not> isFlipping s"
    and cp: "currentPage s = currentPage s0" and pg: "pages s = pages s0"
    and ln: "length (elems s) = length (elems s0)" and em: "emitted s = emitted s0"
    by (simp_all add: grabbed_def)
  from g have at: "page_at s0 (if d = Next then currentPage s0 div 2 else currentPage s0 div 2 - 1) = Some r"
    by (auto simp add: grabbed_def)
  from g have dir: "d = Next \<or> d = Prev" by (rule grabbed_dir)
  define Y where "Y = cleanupDragPage
     ((animateToAngle r (if dragDirection s = Some Next then 0 else - 180) s)\<lparr>isDragging := False\<rparr>)"
  have fin: "finish (handleMouseUp s) = updatePageVisibility Y"
    unfolding Y_def released_revert [OF dr dp no] by (simp add: cancelFlip_resume_def)
  have Ypages: "pages Y = pages s0" and Ylen: "length (elems Y) = length (elems s0)"
    and Ycp: "currentPage Y = currentPage s0" and Yem: "emitted Y = emitted s0"
    and Yfl: "\<not> isFlipping Y" and Ydr: "\<not> isDragging Y"
    by (simp_all add: Y_def pg ln cp em nf)
  from inv have d1: "distinct (pages Y)" and d2: "\<forall>q \<in> set (pages Y). q < length (elems Y)"
    by (simp_all add: book_inv_def Ypages Ylen)
  have Yat: "page_at Y (if d = Next then currentPage s0 div 2 else currentPage s0 div 2 - 1) = Some r"
    using at by (simp only: page_at_frame [OF Ypages])
  show "currentPage (finish (handleMouseUp s)) = currentPage s0" by (simp add: fin Ycp)
  show "rotation (elems (finish (handleMouseUp s)) ! r) = (if d = Next then Fin 0 else Fin (- 180))"
    using rotation_after_settle [OF d1 d2 Yat] dir by (auto simp add: fin Ycp)
  show "emitted (finish (handleMouseUp s)) = emitted s0" by (simp add: fin Yem)
  show "\<not> isFlipping (finish (handleMouseUp s))" by (simp add: fin Yfl)
  show "\<not> isDragging (finish (handleMouseUp s))" by (simp add: fin Ydr)
qed

lemma half_shift: "(c + 2) div 2 = c div 2 + 1" "(c - 2) div 2 = c div 2 - 1" for c :: int
  by presburger+

text \<open>
  A drag gesture that began in a reachable state with neither \<^verbatim>\<open>isFlipping\<close> nor
  \<^verbatim>\<open>isDragging\<close> set ends as the decision rule says, provided that nothing but its own
  pointer moves runs between its pointer-down and the end of its settling animation: no
  request, and no continuation left by an earlier release. Let \<open>d\<close> be its direction and \<open>r\<close>
  the spread it turns. Released with a stored progress greater than the double \<^verbatim>\<open>0.3\<close> it
  commits: \<^verbatim>\<open>currentPage\<close> has moved by 2, the turned spread is at the opposite rest
  angle, and each callback that is installed has been called once. Released otherwise it
  reverts: the spread is back at its rest angle and \<^verbatim>\<open>currentPage\<close> is unchanged.
\<close>

lemma drag_release_rule:
  assumes "reachable s0" and "\<not> isFlipping s0" and "\<not> isDragging s0"
    and "s1 = moves ms (handleMouseDown x y w h s0)"
    and "isDragging s1" and "dragDirection s1 = Some d" and "dragPage s1 = Some r"
    and "s2 = finish (handleMouseUp s1)"
  shows "(d = Next \<or> d = Prev) \<and>
    (js_gt (dragProgress s1) double_0_3 \<longrightarrow>
       currentPage s2 = (if d = Next then currentPage s0 + 2 else currentPage s0 - 2) \<and>
       currentPage s2 div 2 = (if d = Next then currentPage s0 div 2 + 1 else currentPage s0 div 2 - 1) \<and>
       rotation (elems s2 ! r) = (if d = Next then Fin (- 180) else Fin 0) \<and>
       emitted s2 =
         emitted s0 @ (if onFlipStart s0 then [FlipStart (currentPage s0) (Some d)] else []) @
         (if onFlipEnd s0 then [FlipEnd (currentPage s2) None] else [])) \<and>
    (\<not> js_gt (dragProgress s1) double_0_3 \<longrightarrow>
       currentPage s2 = currentPage s0 \<and>
       rotation (elems s2 ! r) = (if d = Next then Fin 0 else Fin (- 180)) \<and>
       emitted s2 = emitted s0) \<and>
    \<not> isFlipping s2 \<and> \<not> isDragging s2"
proof -
  have inv: "book_inv s0" by (rule reachable_inv [OF assms(1)])
  from assms(4,5) have "isDragging (handleMouseDown x y w h s0)"
    by (simp add: isDragging_moves)
  from grabbed_down [OF assms(2,3) this] obtain d' r'
    where "grabbed s0 d' r' (handleMouseDown x y w h s0)" by blast
  then have "grabbed s0 d' r' s1" unfolding assms(4) by (rule grabbed_moves)
  moreover from this assms(6,7) have "d' = d" "r' = r" by (simp_all add: grabbed_def)
  ultimately have g: "grabbed s0 d r s1" by simp
  have dir: "d = Next \<or> d = Prev" by (rule grabbed_dir [OF g])
  have commit: "currentPage s2 = (if d = Next then currentPage s0 + 2 else currentPage s0 - 2) \<and>
       currentPage s2 div 2 = (if d = Next then currentPage s0 div 2 + 1 else currentPage s0 div 2 - 1) \<and>
       rotation (elems s2 ! r) = (if d = Next then Fin (- 180) else Fin 0) \<and>
       emitted s2 =
         emitted s0 @ (if onFlipStart s0 then [FlipStart (currentPage s0) (Some d)] else []) @
         (if onFlipEnd s0 then [FlipEnd (currentPage s2) None] else [])"
    if yes: "js_gt (dragProgress s1) double_0_3"
    unfolding assms(8)
    by (simp add: commit_result(1-3) [OF g inv yes] half_shift)
  have revert: "currentPage s2 = currentPage s0 \<and>
       rotation (elems s2 ! r) = (if d = Next then Fin 0 else Fin (- 180)) \<and>
       emitted s2 = emitted s0"
    if no: "\<not> js_gt (dragProgress s1) double_0_3"
    unfolding assms(8)
    by (simp add: revert_result(1-3) [OF g inv no])
  have idle: "\<not> isFlipping s2 \<and> \<not> isDragging s2"
    unfolding assms(8)
    using commit_result(4,5) [OF g inv] revert_result(4,5) [OF g inv] by blast
  from dir commit revert idle show ?thesis by blast
qed

text \<open>
  Claim C9 says that every active drag released with a progress above 0.3 commits, moving
  the index by one spread and the turned spread to the opposite rest angle. A reverting
  release does not set \<^verbatim>\<open>isFlipping\<close>, so a new drag can begin while the revert of the
  previous one is still animating. On a book of five leaves at leaf 0: a pointer-down at
  the right edge and a release on the spot (a revert begins); within its settling time a
  second pointer-down at the right edge, a move that brings the stored progress to
  \<^verbatim>\<open>0.6\<close>, and the release (a commit begins). When the first animation ends,
  \<^verbatim>\<open>_cancelFlip\<close> clears \<^verbatim>\<open>dragDirection\<close> and settles the book; when the second ends,
  \<^verbatim>\<open>_completeFlip\<close> finds no direction and subtracts 2. The forward drag released at
  \<^verbatim>\<open>0.6\<close> ends at \<^verbatim>\<open>currentPage = -2\<close> with its spread at \<open>0\<close> degrees.
\<close>

theorem release_after_pending_revert:
  "fst (handleMouseUp (handleMouseDown 90 50 100 100
     (loadPages [Str ''a'', Str ''b'', Str ''c'', Str ''d'', Str ''e''] (new_book True True)))) =
     Some CancelFlip \<and>
   isDragging (handleMouseMove 60 50 100 100 (handleMouseDown 90 50 100 100
     (snd (handleMouseUp (handleMouseDown 90 50 100 100
       (loadPages [Str ''a'', Str ''b'', Str ''c'', Str ''d'', Str ''e''] (new_book True True))))))) \<and>
   dragDirection (handleMouseMove 60 50 100 100 (handleMouseDown 90 50 100 100
     (snd (handleMouseUp (handleMouseDown 90 50 100 100
       (loadPages [Str ''a'', Str ''b'', Str ''c'', Str ''d'', Str ''e''] (new_book True True))))))) =
     Some Next \<and>
   dragPage (handleMouseMove 60 50 100 100 (handleMouseDown 90 50 100 100
     (snd (handleMouseUp (handleMouseDown 90 50 100 100
       (loadPages [Str ''a'', Str ''b'', Str ''c'', Str ''d'', Str ''e''] (new_book True True))))))) =
     Some 0 \<and>
   dragProgress (handleMouseMove 60 50 100 100 (handleMouseDown 90 50 100 100
     (snd (handleMouseUp (handleMouseDown 90 50 100 100
       (loadPages [Str ''a'', Str ''b'', Str ''c'', Str ''d'', Str ''e''] (new_book True True))))))) =
     Fin double_0_6 \<and>
   js_gt (Fin double_0_6) double_0_3 \<and>
   fst (handleMouseUp (handleMouseMove 60 50 100 100 (handleMouseDown 90 50 100 100
     (snd (handleMouseUp (handleMouseDown 90 50 100 100
       (loadPages [Str ''a'', Str ''b'', Str ''c'', Str ''d'', Str ''e''] (new_book True True)))))))) =
     Some CompleteFlip \<and>
   currentPage (resume_task CompleteFlip (resume_task CancelFlip
     (snd (handleMouseUp (handleMouseMove 60 50 100 100 (handleMouseDown 90 50 100 100
       (snd (handleMouseUp (handleMouseDown 90 50 100 100
         (loadPages [Str ''a'', Str ''b'', Str ''c'', Str ''d'', Str ''e''] (new_book True True))))))))))) =
     - 2 \<and>
   rotation (elems (resume_task CompleteFlip (resume_task CancelFlip
     (snd (handleMouseUp (handleMouseMove 60 50 100 100 (handleMouseDown 90 50 100 100
       (snd (handleMouseUp (handleMouseDown 90 50 100 100
         (loadPages [Str ''a'', Str ''b'', Str ''c'', Str ''d'', Str ''e''] (new_book True True))))))))))) ! 0) =
     Fin 0 \<and>
   emitted (resume_task CompleteFlip (resume_task CancelFlip
     (snd (handleMouseUp (handleMouseMove 60 50 100 100 (handleMouseDown 90 50 100 100
       (snd (handleMouseUp (handleMouseDown 90 50 100 100
         (loadPages [Str ''a'', Str ''b'', Str ''c'', Str ''d'', Str ''e''] (new_book True True))))))))))) =
     [FlipStart 0 (Some Next), FlipEnd (- 2) None]"
  by code_simp

end
